(* ===== verification/Go_Prelude.thy ===== *)
theory Go_Prelude
  imports Main "HOL-Library.Word" "HOL-Library.AList" "HOL-Library.Multiset"
    "HOL-Library.List_Lexorder" "HOL-Library.Char_ord"
begin

text \<open>
  What every component of the broker shares: the Go types the program uses (64-bit
  integers, durations, instants, buffered channels, errors) and the generic lemmas on
  lists and association lists.  Go's \<open>int\<close> and \<open>int64\<close> are 64 bits wide
  (amd64); where the code adds or multiplies values that come from a client or from the
  configuration they are words, read through \<^term>\<open>sint\<close>.  An instant is an
  unbounded number of nanoseconds since the Unix epoch.
\<close>

section \<open>Collections of rules\<close>

named_theorems go_defs \<open>definitions of library operations that proofs unfold\<close>
named_theorems frame_simps \<open>fields an operation leaves alone\<close>

section \<open>Integers, durations, instants\<close>

type_synonym int64 = "64 word"
type_synonym time = int

abbreviation nanos_per_second :: int where "nanos_per_second \<equiv> 1000000000"

definition max_int64 :: int where "max_int64 = 9223372036854775807"
definition min_int64 :: int where "min_int64 = - 9223372036854775808"

definition in_int64 :: "int \<Rightarrow> bool" where
  "in_int64 i \<longleftrightarrow> min_int64 \<le> i \<and> i \<le> max_int64"

text \<open>\<open>time.Now().Unix()\<close>: whole seconds of an instant.\<close>

definition unix :: "time \<Rightarrow> int64" where
  "unix t = word_of_int (t div nanos_per_second)"

text \<open>\<open>t.Sub(u)\<close>: the difference as a \<open>Duration\<close>, saturating at its ends.\<close>

definition time_sub :: "time \<Rightarrow> time \<Rightarrow> int64" where
  "time_sub t u = word_of_int (max min_int64 (min max_int64 (t - u)))"

text \<open>\<open>time.Duration(n) * time.Second\<close>: the product wraps.\<close>

definition seconds :: "int64 \<Rightarrow> int64" where
  "seconds n = n * 1000000000"

text \<open>The zero value of \<open>time.Time\<close> (1 January of year 1), in nanoseconds.\<close>

definition zero_time :: time where
  "zero_time = - 62135596800000000000"

lemma sint_int64_of_int [simp]:
  "in_int64 i \<Longrightarrow> sint (word_of_int i :: int64) = i"
  by (simp add: in_int64_def max_int64_def min_int64_def sint_sbintrunc' signed_take_bit_int_eq_self)

lemma in_int64_sint [simp, intro]: "in_int64 (sint (w :: int64))"
  using sint_range_size [of w]
  by (simp add: in_int64_def max_int64_def min_int64_def word_size)

lemma sint_time_sub: "sint (time_sub t u) = max min_int64 (min max_int64 (t - u))"
proof -
  have "in_int64 (max min_int64 (min max_int64 (t - u)))"
    by (simp add: in_int64_def max_int64_def min_int64_def)
  then show ?thesis by (simp add: time_sub_def)
qed

lemma time_sub_ge_iff:
  "sint d \<le> sint (time_sub t u) \<longleftrightarrow> sint (d :: int64) \<le> t - u \<or> sint d = min_int64"
proof -
  have "min_int64 \<le> sint d" "sint d \<le> max_int64" "min_int64 < max_int64"
    using in_int64_sint [of d] by (simp_all add: in_int64_def max_int64_def min_int64_def)
  then show ?thesis by (auto simp: sint_time_sub)
qed

lemma sint_unix:
  "in_int64 (t div nanos_per_second) \<Longrightarrow> sint (unix t) = t div nanos_per_second"
  by (simp add: unix_def)

section \<open>Errors\<close>

text \<open>
  One constructor for each error the program builds or passes on.  \<open>SysErr\<close> carries
  the text of an error that comes from the operating system or from a library.
\<close>

datatype go_error =
    CircuitOpen
  | TrialInProgress
  | QueueFull int
  | QueueEmpty
  | NotInMemory string
  | NotPendingNorQueued string
  | NotPending string
  | PersistFailed go_error
  | WriteFailed string go_error
  | TargetStatus int
  | DialFailed go_error
  | DeliveryFailed go_error
  | TargetFailure string
  | StorageFailed string go_error
  | BadHeaders string
  | SysErr string

lemmas int64_bounds = in_int64_def max_int64_def min_int64_def

lemma sint_add_int64:
  "in_int64 (sint a + sint b) \<Longrightarrow> sint (a + b :: int64) = sint a + sint b"
  by (simp add: sint_word_add int64_bounds signed_take_bit_int_eq_self)

lemma sint_diff_int64:
  "in_int64 (sint a - sint b) \<Longrightarrow> sint (a - b :: int64) = sint a - sint b"
  by (simp add: sint_word_diff int64_bounds signed_take_bit_int_eq_self)

lemma sint_mult_int64:
  "in_int64 (sint a * sint b) \<Longrightarrow> sint (a * b :: int64) = sint a * sint b"
  by (simp add: sint_word_mult int64_bounds signed_take_bit_int_eq_self)

section \<open>Association lists\<close>

text \<open>
  A Go map is an association list without repeated keys; \<open>AList.update\<close> and
  \<open>AList.delete\<close> keep it so.  Where the program ranges over a map, the order of the
  iteration is an argument of the definition, since Go leaves it unspecified.
\<close>

definition keys :: "('k \<times> 'v) list \<Rightarrow> 'k list" where
  "keys m = map fst m"

definition map_ok :: "('k \<times> 'v) list \<Rightarrow> bool" where
  "map_ok m \<longleftrightarrow> distinct (keys m)"

lemma map_ok_Nil [simp]: "map_ok []"
  by (simp add: map_ok_def keys_def)

lemma map_ok_update [simp]: "map_ok m \<Longrightarrow> map_ok (AList.update k v m)"
  by (simp add: map_ok_def keys_def distinct_update)

lemma map_ok_delete [simp]: "map_ok m \<Longrightarrow> map_ok (AList.delete k m)"
  by (simp add: map_ok_def keys_def distinct_delete)

lemma map_of_update [simp]:
  "map_of (AList.update k v m) j = (if j = k then Some v else map_of m j)"
  by (simp add: update_conv)

lemma map_of_delete [simp]:
  "map_of (AList.delete k m) j = (if j = k then None else map_of m j)"
  by (simp add: delete_conv')

lemma set_keys [simp]: "set (keys m) = dom (map_of m)"
  by (simp add: keys_def dom_map_of_conv_image_fst)

lemma length_keys [simp]: "length (keys m) = length m"
  by (simp add: keys_def)

lemma map_ok_mem: "map_ok m \<Longrightarrow> (k, v) \<in> set m \<longleftrightarrow> map_of m k = Some v"
  by (simp add: map_ok_def keys_def)

section \<open>Lists\<close>

lemma filter_id: "(\<And>x. x \<in> set xs \<Longrightarrow> P x) \<Longrightarrow> filter P xs = xs"
  by (induction xs) auto

lemma distinct_map_filter: "distinct (map f xs) \<Longrightarrow> distinct (map f (filter P xs))"
  by (induction xs) auto

end
