(* ===== verification/Json.thy ===== *)
theory Json
  imports Go_Prelude
begin

text \<open>
  What the program uses of \<open>encoding/json\<close>: compact output and input of JSON text
  (\<open>print_json\<close>, \<open>parse_json\<close>), and the Go values an \<open>any\<close> holds
  (\<open>encode_any\<close>, \<open>decode_any\<close>).  Strings are sequences of bytes, taken to be valid UTF-8;
  a number is the text of its literal.  The output leaves U+2028 and U+2029 as they are
  (Go writes them as escapes, which read back to the same bytes).  A \<open>float64\<close> is represented by its shortest decimal text, so
  the conversion of a literal (\<open>canon_num\<close>) is exact for literals of up to 15 significant
  digits; rounding to binary is not modelled.
\<close>

section \<open>Syntax\<close>

datatype json =
    JNull
  | JBool bool
  | JNum string
  | JStr string
  | JArr "json list"
  | JObj "(string \<times> json) list"

definition dquote :: char where "dquote = CHR 0x22"
definition bslash :: char where "bslash = CHR 0x5C"

definition is_digit :: "char \<Rightarrow> bool" where
  "is_digit c \<longleftrightarrow> 48 \<le> (of_char c :: nat) \<and> of_char c \<le> (57 :: nat)"

definition is_num_char :: "char \<Rightarrow> bool" where
  "is_num_char c \<longleftrightarrow> is_digit c \<or> c \<in> set ''+-.eE''"

definition is_ws :: "char \<Rightarrow> bool" where
  "is_ws c \<longleftrightarrow> c \<in> {CHR 0x20, CHR 0x09, CHR 0x0A, CHR 0x0D}"

fun skip_ws :: "string \<Rightarrow> string" where
  "skip_ws [] = []"
| "skip_ws (c # cs) = (if is_ws c then skip_ws cs else c # cs)"

section \<open>Numbers\<close>

fun digits_of :: "nat \<Rightarrow> string" where
  "digits_of n =
     (if n < 10 then [char_of (48 + n)] else digits_of (n div 10) @ [char_of (48 + n mod 10)])"

declare digits_of.simps [simp del]

definition digit_val :: "char \<Rightarrow> nat" where
  "digit_val c = of_char c - 48"

definition nat_of_digits :: "string \<Rightarrow> nat" where
  "nat_of_digits cs = foldl (\<lambda>n c. 10 * n + digit_val c) 0 cs"

definition print_int :: "int \<Rightarrow> string" where
  "print_int i = (if i < 0 then CHR ''-'' # digits_of (nat (- i)) else digits_of (nat i))"

text \<open>
  A literal of the JSON grammar, split into its sign, integer digits, fraction digits and
  exponent.
\<close>

definition split_exp :: "string \<Rightarrow> int option" where
  "split_exp cs =
     (case cs of
        [] \<Rightarrow> Some 0
      | c # r \<Rightarrow>
          if c = CHR ''e'' \<or> c = CHR ''E'' then
            (case r of
               [] \<Rightarrow> None
             | d # ds \<Rightarrow>
                 let (neg, es) = (if d = CHR ''-'' then (True, ds)
                                  else if d = CHR ''+'' then (False, ds) else (False, r))
                 in if es \<noteq> [] \<and> list_all is_digit es
                    then Some (if neg then - int (nat_of_digits es) else int (nat_of_digits es))
                    else None)
          else None)"

definition split_num :: "string \<Rightarrow> (bool \<times> string \<times> string \<times> int) option" where
  "split_num cs =
     (let (neg, r) = (case cs of c # r \<Rightarrow> if c = CHR ''-'' then (True, r) else (False, cs)
                      | [] \<Rightarrow> (False, []));
          ip = takeWhile is_digit r;
          r = dropWhile is_digit r
      in if ip = [] \<or> (hd ip = CHR ''0'' \<and> 1 < length ip) then None
         else (case r of
                 c # r' \<Rightarrow>
                   if c = CHR ''.'' then
                     (let fp = takeWhile is_digit r' in
                      if fp = [] then None
                      else map_option (\<lambda>e. (neg, ip, fp, e)) (split_exp (dropWhile is_digit r')))
                   else map_option (\<lambda>e. (neg, ip, [], e)) (split_exp r)
               | [] \<Rightarrow> Some (neg, ip, [], 0)))"

definition valid_num :: "string \<Rightarrow> bool" where
  "valid_num cs \<longleftrightarrow> list_all is_num_char cs \<and> split_num cs \<noteq> None"

text \<open>\<open>strconv.ParseInt(lit, 10, 64)\<close>: an integer literal in range.\<close>

definition parse_int64 :: "string \<Rightarrow> int64 option" where
  "parse_int64 cs =
     (let (neg, ds) = (case cs of c # r \<Rightarrow> if c = CHR ''-'' then (True, r) else (False, cs)
                       | [] \<Rightarrow> (False, []));
          i = (if neg then - int (nat_of_digits ds) else int (nat_of_digits ds))
      in if ds \<noteq> [] \<and> list_all is_digit ds \<and> in_int64 i then Some (word_of_int i) else None)"

text \<open>
  The shortest decimal of a literal: its sign, its significant digits, and the position of
  the decimal point in front of them (the value is \<open>0.d1d2... * 10 ^ point\<close>).
\<close>

definition strip_zeros :: "string \<Rightarrow> string" where
  "strip_zeros ds = rev (dropWhile (\<lambda>c. c = CHR ''0'') (rev ds))"

definition decimal :: "string \<Rightarrow> (bool \<times> string \<times> int) option" where
  "decimal lit =
     map_option (\<lambda>(neg, ip, fp, e).
       (let ds = dropWhile (\<lambda>c. c = CHR ''0'') (ip @ fp);
            point = int (length ds) - int (length fp) + e;
            ds = strip_zeros ds
        in if ds = [] then (neg, [], 0) else (neg, ds, point))) (split_num lit)"

definition format_fixed :: "bool \<Rightarrow> string \<Rightarrow> int \<Rightarrow> string" where
  "format_fixed neg ds point =
     (if neg then ''-'' else '''') @
     (if ds = [] then ''0''
      else if point \<le> 0 then ''0.'' @ replicate (nat (- point)) (CHR ''0'') @ ds
      else if int (length ds) \<le> point then ds @ replicate (nat point - length ds) (CHR ''0'')
      else take (nat point) ds @ ''.'' @ drop (nat point) ds)"

definition format_exp :: "nat \<Rightarrow> bool \<Rightarrow> string \<Rightarrow> int \<Rightarrow> string" where
  "format_exp width neg ds point =
     (let e = point - 1;
          es = digits_of (nat \<bar>e\<bar>)
      in (if neg then ''-'' else '''') @ take 1 ds @
         (if length ds \<le> 1 then '''' else ''.'' @ drop 1 ds) @
         (if e < 0 then ''e-'' else ''e+'') @ replicate (width - length es) (CHR ''0'') @ es)"

text \<open>The float64 of a literal, as \<open>encoding/json\<close> writes it.\<close>

definition canon_num :: "string \<Rightarrow> string option" where
  "canon_num lit =
     map_option (\<lambda>(neg, ds, point).
       if ds \<noteq> [] \<and> point \<le> - 6 then format_exp 1 neg ds point
       else if ds \<noteq> [] \<and> 22 \<le> point then format_exp 2 neg ds point
       else format_fixed neg ds point) (decimal lit)"

text \<open>The float64 of a literal, as \<open>fmt\<close> writes it under \<open>%v\<close>.\<close>

definition fmt_num :: "string \<Rightarrow> string" where
  "fmt_num lit =
     (case decimal lit of
        None \<Rightarrow> lit
      | Some (neg, ds, point) \<Rightarrow>
          if ds \<noteq> [] \<and> (point - 1 < - 4 \<or> 6 \<le> point - 1) then format_exp 2 neg ds point
          else format_fixed neg ds point)"

section \<open>Output\<close>

definition hex_digit :: "nat \<Rightarrow> char" where
  "hex_digit n = char_of (if n < 10 then 48 + n else 87 + n)"

definition escape_char :: "char \<Rightarrow> string" where
  "escape_char c =
     (if c = dquote then [bslash, dquote]
      else if c = bslash then [bslash, bslash]
      else if c = CHR 0x08 then [bslash, CHR ''b'']
      else if c = CHR 0x0C then [bslash, CHR ''f'']
      else if c = CHR 0x0A then [bslash, CHR ''n'']
      else if c = CHR 0x0D then [bslash, CHR ''r'']
      else if c = CHR 0x09 then [bslash, CHR ''t'']
      else if of_char c < (32 :: nat) \<or> c = CHR ''<'' \<or> c = CHR ''>'' \<or> c = CHR 0x26
      then [bslash, CHR ''u'', CHR ''0'', CHR ''0'',
            hex_digit (of_char c div 16), hex_digit (of_char c mod 16)]
      else [c])"

definition print_str :: "string \<Rightarrow> string" where
  "print_str s = dquote # concat (map escape_char s) @ [dquote]"

fun print_json :: "json \<Rightarrow> string"
  and print_elems :: "json list \<Rightarrow> string"
  and print_members :: "(string \<times> json) list \<Rightarrow> string" where
  "print_json JNull = ''null''"
| "print_json (JBool b) = (if b then ''true'' else ''false'')"
| "print_json (JNum lit) = lit"
| "print_json (JStr s) = print_str s"
| "print_json (JArr js) = CHR ''['' # print_elems js"
| "print_json (JObj kvs) = CHR ''{'' # print_members kvs"
| "print_elems [] = '']''"
| "print_elems [j] = print_json j @ '']''"
| "print_elems (j # js) = print_json j @ '','' @ print_elems js"
| "print_members [] = ''}''"
| "print_members [(k, j)] = print_str k @ '':'' @ print_json j @ ''}''"
| "print_members ((k, j) # kvs) = print_str k @ '':'' @ print_json j @ '','' @ print_members kvs"

section \<open>Input\<close>

definition hex_val :: "char \<Rightarrow> nat option" where
  "hex_val c =
     (let n = of_char c in
      if 48 \<le> n \<and> n \<le> 57 then Some (n - 48)
      else if 97 \<le> n \<and> n \<le> 102 then Some (n - 87)
      else if 65 \<le> n \<and> n \<le> 70 then Some (n - 55)
      else None)"

definition hex4 :: "char \<Rightarrow> char \<Rightarrow> char \<Rightarrow> char \<Rightarrow> nat option" where
  "hex4 a b c d =
     (case (hex_val a, hex_val b, hex_val c, hex_val d) of
        (Some w, Some x, Some y, Some z) \<Rightarrow> Some (((w * 16 + x) * 16 + y) * 16 + z)
      | _ \<Rightarrow> None)"

definition utf8 :: "nat \<Rightarrow> string" where
  "utf8 n =
     (if n < 0x80 then [char_of n]
      else if n < 0x800 then [char_of (0xC0 + n div 64), char_of (0x80 + n mod 64)]
      else if n < 0x10000 then
        [char_of (0xE0 + n div 4096), char_of (0x80 + n div 64 mod 64), char_of (0x80 + n mod 64)]
      else [char_of (0xF0 + n div 262144), char_of (0x80 + n div 4096 mod 64),
            char_of (0x80 + n div 64 mod 64), char_of (0x80 + n mod 64)])"

definition is_surrogate :: "nat \<Rightarrow> bool" where
  "is_surrogate n \<longleftrightarrow> 0xD800 \<le> n \<and> n < 0xE000"

definition surrogate_pair :: "nat \<Rightarrow> nat option \<Rightarrow> nat option" where
  "surrogate_pair hi lo =
     (case lo of
        None \<Rightarrow> None
      | Some l \<Rightarrow>
          if hi < 0xDC00 \<and> 0xDC00 \<le> l \<and> l < 0xE000
          then Some (0x10000 + (hi - 0xD800) * 1024 + (l - 0xDC00)) else None)"

definition simple_escape :: "char \<Rightarrow> char option" where
  "simple_escape e =
     (if e = dquote then Some dquote
      else if e = bslash then Some bslash
      else if e = CHR ''/'' then Some (CHR ''/'')
      else if e = CHR ''b'' then Some (CHR 0x08)
      else if e = CHR ''f'' then Some (CHR 0x0C)
      else if e = CHR ''n'' then Some (CHR 0x0A)
      else if e = CHR ''r'' then Some (CHR 0x0D)
      else if e = CHR ''t'' then Some (CHR 0x09)
      else None)"

text \<open>A string after its opening quote; a lone surrogate reads as U+FFFD.\<close>

fun parse_str :: "string \<Rightarrow> (string \<times> string) option" where
  "parse_str [] = None"
| "parse_str (c # cs) =
     (if c = dquote then Some ([], cs)
      else if c = bslash then
        (case cs of
           [] \<Rightarrow> None
         | e # cs1 \<Rightarrow>
             if e = CHR ''u'' then
               (case cs1 of
                  h1 # h2 # h3 # h4 # cs2 \<Rightarrow>
                    (case hex4 h1 h2 h3 h4 of
                       None \<Rightarrow> None
                     | Some n \<Rightarrow>
                         if is_surrogate n then
                           (case cs2 of
                              b # u # g1 # g2 # g3 # g4 # cs3 \<Rightarrow>
                                if b = bslash \<and> u = CHR ''u'' \<and> surrogate_pair n (hex4 g1 g2 g3 g4) \<noteq> None
                                then map_option (\<lambda>(s, r). (utf8 (the (surrogate_pair n (hex4 g1 g2 g3 g4))) @ s, r))
                                       (parse_str cs3)
                                else map_option (\<lambda>(s, r). (utf8 0xFFFD @ s, r)) (parse_str cs2)
                            | _ \<Rightarrow> map_option (\<lambda>(s, r). (utf8 0xFFFD @ s, r)) (parse_str cs2))
                         else map_option (\<lambda>(s, r). (utf8 n @ s, r)) (parse_str cs2))
                | _ \<Rightarrow> None)
             else (case simple_escape e of
                     None \<Rightarrow> None
                   | Some d \<Rightarrow> map_option (\<lambda>(s, r). (d # s, r)) (parse_str cs1)))
      else if of_char c < (32 :: nat) then None
      else map_option (\<lambda>(s, r). (c # s, r)) (parse_str cs))"

text \<open>
  Values, by fuel: each call consumes at least one character, so the length of the text is
  enough (\<open>parse_print\<close> below).
\<close>

fun parse_val :: "nat \<Rightarrow> string \<Rightarrow> (json \<times> string) option"
  and parse_elems :: "nat \<Rightarrow> string \<Rightarrow> (json list \<times> string) option"
  and parse_members :: "nat \<Rightarrow> string \<Rightarrow> ((string \<times> json) list \<times> string) option" where
  "parse_val 0 cs = None"
| "parse_val (Suc n) cs =
     (case skip_ws cs of
        [] \<Rightarrow> None
      | c # r \<Rightarrow>
          if c = CHR ''{'' then
            (case skip_ws r of
               [] \<Rightarrow> None
             | d # r' \<Rightarrow>
                 if d = CHR ''}'' then Some (JObj [], r')
                 else map_option (\<lambda>(kvs, r). (JObj kvs, r)) (parse_members n r))
          else if c = CHR ''['' then
            (case skip_ws r of
               [] \<Rightarrow> None
             | d # r' \<Rightarrow>
                 if d = CHR '']'' then Some (JArr [], r')
                 else map_option (\<lambda>(js, r). (JArr js, r)) (parse_elems n r))
          else if c = dquote then map_option (\<lambda>(s, r). (JStr s, r)) (parse_str r)
          else if take 4 (c # r) = ''null'' then Some (JNull, drop 3 r)
          else if take 4 (c # r) = ''true'' then Some (JBool True, drop 3 r)
          else if take 5 (c # r) = ''false'' then Some (JBool False, drop 4 r)
          else (let lit = takeWhile is_num_char (c # r) in
                if valid_num lit then Some (JNum lit, dropWhile is_num_char (c # r)) else None))"
| "parse_elems 0 cs = None"
| "parse_elems (Suc n) cs =
     (case parse_val n cs of
        None \<Rightarrow> None
      | Some (j, r) \<Rightarrow>
          (case skip_ws r of
             [] \<Rightarrow> None
           | c # r' \<Rightarrow>
               if c = CHR '']'' then Some ([j], r')
               else if c = CHR '','' then
                 map_option (\<lambda>(js, r). (j # js, r)) (parse_elems n r')
               else None))"
| "parse_members 0 cs = None"
| "parse_members (Suc n) cs =
     (case skip_ws cs of
        [] \<Rightarrow> None
      | q # r \<Rightarrow>
          if q \<noteq> dquote then None
          else (case parse_str r of
                  None \<Rightarrow> None
                | Some (k, r1) \<Rightarrow>
                    (case skip_ws r1 of
                       [] \<Rightarrow> None
                     | c # r2 \<Rightarrow>
                         if c \<noteq> CHR '':'' then None
                         else (case parse_val n r2 of
                                 None \<Rightarrow> None
                               | Some (j, r3) \<Rightarrow>
                                   (case skip_ws r3 of
                                      [] \<Rightarrow> None
                                    | d # r4 \<Rightarrow>
                                        if d = CHR ''}'' then Some ([(k, j)], r4)
                                        else if d = CHR '','' then
                                          map_option (\<lambda>(kvs, r). ((k, j) # kvs, r))
                                            (parse_members n r4)
                                        else None)))))"

text \<open>
  \<open>json.Unmarshal\<close> wants one value and nothing after it; a \<open>Decoder\<close> reads one value and
  leaves the rest.
\<close>

definition parse_prefix :: "string \<Rightarrow> (json \<times> string) option" where
  "parse_prefix cs = parse_val (Suc (2 * length cs)) cs"

definition parse_json :: "string \<Rightarrow> json option" where
  "parse_json cs =
     (case parse_prefix cs of
        Some (j, r) \<Rightarrow> if skip_ws r = [] then Some j else None
      | None \<Rightarrow> None)"

section \<open>Output reads back\<close>

text \<open>A literal that the grammar accepts: what \<open>JNum\<close> holds in every value the program builds.\<close>

fun wf_json :: "json \<Rightarrow> bool" where
  "wf_json (JNum lit) = valid_num lit"
| "wf_json (JArr js) = list_all wf_json js"
| "wf_json (JObj kvs) = list_all (\<lambda>kv. wf_json (snd kv)) kvs"
| "wf_json _ = True"

lemma hex_val_digit [simp]: "n < 16 \<Longrightarrow> hex_val (hex_digit n) = Some n"
  by (simp add: hex_val_def hex_digit_def)

lemma hex4_byte: "n < 128 \<Longrightarrow>
    hex4 (CHR ''0'') (CHR ''0'') (hex_digit (n div 16)) (hex_digit (n mod 16)) = Some n"
  by (simp add: hex4_def hex_val_def [of "CHR ''0''"])

lemma utf8_byte: "n < 128 \<Longrightarrow> utf8 n = [char_of n]"
  by (simp add: utf8_def)

lemma parse_str_plain:
  "c \<noteq> dquote \<Longrightarrow> c \<noteq> bslash \<Longrightarrow> \<not> of_char c < (32 :: nat) \<Longrightarrow>
   parse_str (c # cs) = map_option (\<lambda>(s, r). (c # s, r)) (parse_str cs)"
  by simp

lemma parse_str_simple_escape:
  "e \<noteq> CHR ''u'' \<Longrightarrow> simple_escape e = Some d \<Longrightarrow>
   parse_str (bslash # e # cs) = map_option (\<lambda>(s, r). (d # s, r)) (parse_str cs)"
  by (simp add: bslash_def dquote_def)

lemma parse_str_unicode_escape:
  "n < 128 \<Longrightarrow>
   parse_str (bslash # CHR ''u'' # CHR ''0'' # CHR ''0'' # hex_digit (n div 16) # hex_digit (n mod 16) # cs)
     = map_option (\<lambda>(s, r). (char_of n # s, r)) (parse_str cs)"
  by (simp add: bslash_def dquote_def hex4_byte utf8_byte is_surrogate_def)

declare parse_str.simps(2) [simp del]

lemma escape_char_cases:
  obtains (simple) e where "escape_char c = [bslash, e]" "e \<noteq> CHR ''u''" "simple_escape e = Some c"
  | (unicode) "escape_char c = [bslash, CHR ''u'', CHR ''0'', CHR ''0'',
        hex_digit (of_char c div 16), hex_digit (of_char c mod 16)]" "of_char c < (128 :: nat)"
  | (plain) "escape_char c = [c]" "c \<noteq> dquote" "c \<noteq> bslash" "\<not> of_char c < (32 :: nat)"
proof -
  consider (a) "c \<in> {dquote, bslash, CHR 0x08, CHR 0x0C, CHR 0x0A, CHR 0x0D, CHR 0x09}"
    | (b) "c \<notin> {dquote, bslash, CHR 0x08, CHR 0x0C, CHR 0x0A, CHR 0x0D, CHR 0x09}"
        "of_char c < (32 :: nat) \<or> c = CHR ''<'' \<or> c = CHR ''>'' \<or> c = CHR 0x26"
    | (c) "c \<notin> {dquote, bslash, CHR 0x08, CHR 0x0C, CHR 0x0A, CHR 0x0D, CHR 0x09}"
        "\<not> (of_char c < (32 :: nat) \<or> c = CHR ''<'' \<or> c = CHR ''>'' \<or> c = CHR 0x26)"
    by blast
  then show ?thesis
  proof cases
    case a
    then have "\<exists>e. escape_char c = [bslash, e] \<and> e \<noteq> CHR ''u'' \<and> simple_escape e = Some c"
      by (elim insertE emptyE) (simp_all add: escape_char_def simple_escape_def dquote_def bslash_def)
    with simple show ?thesis by blast
  next
    case b
    from b(2) have "of_char c < (128 :: nat)" by (elim disjE) simp_all
    with b show ?thesis by (intro unicode) (simp_all add: escape_char_def)
  next
    case c
    then show ?thesis by (intro plain) (simp_all add: escape_char_def)
  qed
qed

lemma parse_str_escape_char:
  "parse_str (escape_char c @ cs) = map_option (\<lambda>(s, r). (c # s, r)) (parse_str cs)"
proof (cases rule: escape_char_cases [of c])
  case (simple e)
  then show ?thesis by (simp add: parse_str_simple_escape)
next
  case unicode
  then show ?thesis using parse_str_unicode_escape [of "of_char c" cs] by simp
next
  case plain
  then show ?thesis by (simp add: parse_str_plain)
qed

lemma parse_str_end [simp]: "parse_str (dquote # cs) = Some ([], cs)"
  by (simp add: parse_str.simps)

lemma parse_str_escaped:
  "parse_str (concat (map escape_char s) @ dquote # rest) = Some (s, rest)"
  by (induction s) (simp_all add: parse_str_escape_char)

lemma num_char_facts:
  "is_num_char c \<Longrightarrow> \<not> is_ws c \<and> c \<notin> {CHR ''{'', CHR ''['', CHR '']'', CHR ''}'', dquote,
     CHR ''n'', CHR ''t'', CHR ''f''}"
  by (auto simp: is_num_char_def is_digit_def is_ws_def dquote_def)

lemma valid_num_Cons: "valid_num lit \<Longrightarrow> \<exists>c r. lit = c # r \<and> is_num_char c"
  by (cases lit) (auto simp: valid_num_def split_num_def)

definition value_start :: "char \<Rightarrow> bool" where
  "value_start c \<longleftrightarrow> \<not> is_ws c \<and> c \<noteq> CHR '']'' \<and> c \<noteq> CHR ''}''"

lemma print_json_start:
  assumes "wf_json j"
  obtains c r where "print_json j = c # r" "value_start c"
proof -
  have "\<exists>c r. print_json j = c # r \<and> value_start c"
    using assms valid_num_Cons num_char_facts
    by (cases j) (fastforce simp: value_start_def is_ws_def print_str_def dquote_def)+
  with that show ?thesis by blast
qed

definition ends_num :: "string \<Rightarrow> bool" where
  "ends_num rest \<longleftrightarrow> (case rest of [] \<Rightarrow> True | c # _ \<Rightarrow> \<not> is_num_char c)"

lemma ends_num_simps [simp]:
  "ends_num []" "ends_num (CHR '']'' # r)" "ends_num (CHR ''}'' # r)" "ends_num (CHR '','' # r)"
  by (simp_all add: ends_num_def is_num_char_def is_digit_def)

lemma span_num:
  assumes "list_all is_num_char lit" "ends_num rest"
  shows "takeWhile is_num_char (lit @ rest) = lit" "dropWhile is_num_char (lit @ rest) = rest"
  using assms by (induction lit) (cases rest; simp add: ends_num_def)+

lemma skip_ws_Cons [simp]: "\<not> is_ws c \<Longrightarrow> skip_ws (c # cs) = c # cs"
  by simp

lemma ws_simps [simp]:
  "\<not> is_ws (CHR '']'')" "\<not> is_ws (CHR ''}'')" "\<not> is_ws (CHR '','')" "\<not> is_ws (CHR '':'')"
  "\<not> is_ws dquote" "dquote \<noteq> CHR ''}''" "\<not> is_ws (CHR ''{'')" "\<not> is_ws (CHR ''['')"
  by (simp_all add: is_ws_def dquote_def)

declare parse_val.simps [simp del] parse_elems.simps [simp del] parse_members.simps [simp del]

lemma parse_val_num:
  assumes "valid_num lit" "ends_num rest"
  shows "parse_val (Suc n) (lit @ rest) = Some (JNum lit, rest)"
proof -
  obtain c r where c: "lit = c # r" "is_num_char c" using valid_num_Cons [OF assms(1)] by blast
  note nf = num_char_facts [OF c(2)]
  have span: "takeWhile is_num_char (lit @ rest) = lit" "dropWhile is_num_char (lit @ rest) = rest"
    using assms by (auto intro!: span_num simp: valid_num_def)
  have "parse_val (Suc n) (lit @ rest) =
      (let l = takeWhile is_num_char (lit @ rest) in
       if valid_num l then Some (JNum l, dropWhile is_num_char (lit @ rest)) else None)"
    using nf c(1) by (simp add: parse_val.simps Let_def)
  then show ?thesis using span assms(1) by simp
qed

lemma parse_val_arr:
  assumes "\<not> is_ws d" "d \<noteq> CHR '']''" "parse_elems n (d # r) = Some (js, rest)"
  shows "parse_val (Suc n) (CHR ''['' # d # r) = Some (JArr js, rest)"
  using assms by (simp add: parse_val.simps dquote_def)

lemma parse_val_obj:
  assumes "\<not> is_ws d" "d \<noteq> CHR ''}''" "parse_members n (d # r) = Some (kvs, rest)"
  shows "parse_val (Suc n) (CHR ''{'' # d # r) = Some (JObj kvs, rest)"
  using assms by (simp add: parse_val.simps dquote_def)

lemma parse_val_str: "parse_val (Suc n) (print_str s @ rest) = Some (JStr s, rest)"
  by (simp add: parse_val.simps print_str_def parse_str_escaped) (simp add: dquote_def)

lemma parse_members_key:
  "parse_members (Suc n) (print_str k @ CHR '':'' # r) =
     (case parse_val n r of
        None \<Rightarrow> None
      | Some (j, r3) \<Rightarrow>
          (case skip_ws r3 of
             [] \<Rightarrow> None
           | d # r4 \<Rightarrow>
               if d = CHR ''}'' then Some ([(k, j)], r4)
               else if d = CHR '','' then
                 map_option (\<lambda>(kvs, r). ((k, j) # kvs, r)) (parse_members n r4)
               else None))"
  by (simp add: parse_members.simps print_str_def parse_str_escaped)

lemma print_elems_start:
  assumes "list_all wf_json (j # js)"
  obtains c r where "print_elems (j # js) = c # r" "\<not> is_ws c" "c \<noteq> CHR '']''"
proof -
  obtain c r where "print_json j = c # r" "value_start c"
    using assms by (auto elim: print_json_start)
  with that show ?thesis by (cases js) (simp_all add: value_start_def)
qed

lemma print_members_start:
  obtains r where "print_members (kv # kvs) = dquote # r"
  by (cases kv; cases kvs) (simp_all add: print_str_def)

lemma length_print_json: "wf_json j \<Longrightarrow> 0 < length (print_json j)"
  by (erule print_json_start) simp

lemma parse_print:
  shows "wf_json j \<Longrightarrow> ends_num rest \<Longrightarrow> 2 * length (print_json j) \<le> n \<Longrightarrow>
           parse_val n (print_json j @ rest) = Some (j, rest)"
    and "list_all wf_json js \<Longrightarrow> js \<noteq> [] \<Longrightarrow> 2 * length (print_elems js) \<le> n \<Longrightarrow>
           parse_elems n (print_elems js @ rest) = Some (js, rest)"
    and "list_all (\<lambda>kv. wf_json (snd kv)) kvs \<Longrightarrow> kvs \<noteq> [] \<Longrightarrow>
           2 * length (print_members kvs) \<le> n \<Longrightarrow>
           parse_members n (print_members kvs @ rest) = Some (kvs, rest)"
proof (induction j and js and kvs arbitrary: n rest and n rest and n rest
    rule: print_json_print_elems_print_members.induct)
  case 1
  then show ?case by (cases n) (simp_all add: parse_val.simps is_ws_def dquote_def)
next
  case (2 b)
  then show ?case by (cases n; cases b) (auto simp: parse_val.simps is_ws_def dquote_def)
next
  case (3 lit)
  then show ?case using length_print_json [of "JNum lit"]
    by (cases n) (simp_all add: parse_val_num)
next
  case (4 s)
  then have "n = Suc (n - 1)" by (simp add: print_str_def)
  then show ?case using parse_val_str [of "n - 1" s rest] by simp
next
  case (5 js)
  then obtain m where n: "n = Suc m" "2 * length (print_elems js) \<le> m" by (cases n) auto
  show ?case
  proof (cases js)
    case Nil
    then show ?thesis using n by (simp add: parse_val.simps dquote_def)
  next
    case (Cons j js')
    with 5 have "list_all wf_json (j # js')" by simp
    then obtain c r where "print_elems js = c # r" "\<not> is_ws c" "c \<noteq> CHR '']''"
      unfolding Cons by (rule print_elems_start)
    with 5 Cons n show ?thesis
      using parse_val_arr [of c m "r @ rest" js rest] by simp
  qed
next
  case (6 kvs)
  then obtain m where n: "n = Suc m" "2 * length (print_members kvs) \<le> m" by (cases n) auto
  show ?case
  proof (cases kvs)
    case Nil
    then show ?thesis using n by (simp add: parse_val.simps)
  next
    case (Cons kv kvs')
    then obtain r where "print_members kvs = dquote # r"
      using print_members_start by metis
    with 6 Cons n show ?thesis
      using parse_val_obj [of dquote m "r @ rest" kvs rest] by simp
  qed
next
  case 7
  then show ?case by simp
next
  case (8 j)
  then show ?case by (cases n) (simp_all add: parse_elems.simps)
next
  case (9 j j' js)
  then show ?case by (cases n) (simp_all add: parse_elems.simps)
next
  case 10
  then show ?case by simp
next
  case (11 k j)
  then show ?case by (cases n) (simp_all add: parse_members_key)
next
  case (12 k j kv kvs)
  then show ?case by (cases n) (simp_all add: parse_members_key)
qed

theorem parse_json_print: "wf_json j \<Longrightarrow> parse_json (print_json j) = Some j"
  using parse_print(1) [of j "[]" "Suc (2 * length (print_json j))"]
  by (simp add: parse_json_def parse_prefix_def)

end
