(* ===== verification/Models.thy ===== *)
theory Models
  imports Json
begin

text \<open>
  \<open>pkg/models/models.go\<close>: the values an \<open>any\<close> holds, the message, and its JSON form under
  the struct tags (\<open>encode_message\<close>, \<open>decode_message\<close>; \<open>marshal_message\<close> and
  \<open>unmarshal_message\<close> on text).  The main lemma is that a message written to a file reads
  back as the same message.
\<close>

section \<open>Values of type any\<close>

text \<open>
  The dynamic types a decoded JSON value can have, and \<open>map[string]string\<close>, which the
  header merge also accepts.  Maps are association lists sorted by key.
\<close>

datatype any =
    VNil
  | VBool bool
  | VNum string
  | VStr string
  | VArr "any list"
  | VMap "(string \<times> any) list"
  | VStrMap "(string \<times> string) list"

fun map_put :: "string \<Rightarrow> 'v \<Rightarrow> (string \<times> 'v) list \<Rightarrow> (string \<times> 'v) list" where
  "map_put k v [] = [(k, v)]"
| "map_put k v ((k', v') # m) =
     (if k = k' then (k, v) # m
      else if k < k' then (k, v) # (k', v') # m
      else (k', v') # map_put k v m)"

definition map_puts :: "(string \<times> 'v) list \<Rightarrow> (string \<times> 'v) list \<Rightarrow> (string \<times> 'v) list" where
  "map_puts kvs m = foldl (\<lambda>m (k, v). map_put k v m) m kvs"

fun decode_any :: "json \<Rightarrow> any" where
  "decode_any JNull = VNil"
| "decode_any (JBool b) = VBool b"
| "decode_any (JNum lit) = VNum (case canon_num lit of Some t \<Rightarrow> t | None \<Rightarrow> lit)"
| "decode_any (JStr s) = VStr s"
| "decode_any (JArr js) = VArr (map decode_any js)"
| "decode_any (JObj kvs) = VMap (map_puts (map (\<lambda>(k, j). (k, decode_any j)) kvs) [])"

fun encode_any :: "any \<Rightarrow> json" where
  "encode_any VNil = JNull"
| "encode_any (VBool b) = JBool b"
| "encode_any (VNum lit) = JNum lit"
| "encode_any (VStr s) = JStr s"
| "encode_any (VArr vs) = JArr (map encode_any vs)"
| "encode_any (VMap kvs) = JObj (map (\<lambda>(k, v). (k, encode_any v)) kvs)"
| "encode_any (VStrMap kvs) = JObj (map (\<lambda>(k, s). (k, JStr s)) kvs)"

text \<open>\<open>fmt.Sprintf("%v", v)\<close>.\<close>

fun join :: "string \<Rightarrow> string list \<Rightarrow> string" where
  "join sep [] = []"
| "join sep [s] = s"
| "join sep (s # ss) = s @ sep @ join sep ss"

fun fmt_v :: "any \<Rightarrow> string" where
  "fmt_v VNil = ''<nil>''"
| "fmt_v (VBool b) = (if b then ''true'' else ''false'')"
| "fmt_v (VNum lit) = fmt_num lit"
| "fmt_v (VStr s) = s"
| "fmt_v (VArr vs) = ''['' @ join '' '' (map fmt_v vs) @ '']''"
| "fmt_v (VMap kvs) = ''map['' @ join '' '' (map (\<lambda>(k, v). k @ '':'' @ fmt_v v) kvs) @ '']''"
| "fmt_v (VStrMap kvs) = ''map['' @ join '' '' (map (\<lambda>(k, s). k @ '':'' @ s) kvs) @ '']''"

text \<open>
  The values a decoder builds: numbers in their canonical text, maps sorted.  Only the
  program's own \<open>map[string]string\<close> headers are not of this form.
\<close>

fun wf_any :: "any \<Rightarrow> bool" where
  "wf_any (VNum lit) = (valid_num lit \<and> canon_num lit = Some lit)"
| "wf_any (VArr vs) = list_all wf_any vs"
| "wf_any (VMap kvs) = (sorted_wrt (<) (map fst kvs) \<and> list_all (\<lambda>kv. wf_any (snd kv)) kvs)"
| "wf_any (VStrMap kvs) = False"
| "wf_any _ = True"

section \<open>Messages\<close>

record message =
  msg_id :: string
  payload :: any
  headers :: any
  target :: string
  created_at :: int64
  retry_count :: int64
  next_retry :: int64

definition zero_message :: message where
  "zero_message = \<lparr>msg_id = '''', payload = VNil, headers = VNil, target = '''',
     created_at = 0, retry_count = 0, next_retry = 0\<rparr>"

definition encode_int64 :: "int64 \<Rightarrow> json" where
  "encode_int64 w = JNum (print_int (sint w))"

text \<open>The fields in the order of the struct, \<open>headers\<close> left out when nil.\<close>

definition encode_message :: "message \<Rightarrow> json" where
  "encode_message m = JObj (
     [(''id'', JStr (msg_id m)), (''payload'', encode_any (payload m))] @
     (if headers m = VNil then [] else [(''headers'', encode_any (headers m))]) @
     [(''target'', JStr (target m)),
      (''created_at'', encode_int64 (created_at m)),
      (''retry_count'', encode_int64 (retry_count m)),
      (''next_retry'', encode_int64 (next_retry m))])"

definition to_lower :: "char \<Rightarrow> char" where
  "to_lower c = (let n = of_char c :: nat in if 65 \<le> n \<and> n \<le> 90 then char_of (n + 32) else c)"

fun decode_string_field :: "json \<Rightarrow> string \<Rightarrow> string option" where
  "decode_string_field (JStr s) old = Some s"
| "decode_string_field JNull old = Some old"
| "decode_string_field _ old = None"

fun decode_int64_field :: "json \<Rightarrow> int64 \<Rightarrow> int64 option" where
  "decode_int64_field (JNum lit) old = parse_int64 lit"
| "decode_int64_field JNull old = Some old"
| "decode_int64_field _ old = None"

text \<open>
  One member of the object.  Names match without regard to case, unknown names are ignored,
  null leaves a string or a number as it is, and a value of another type is an error.
\<close>

definition decode_field :: "string \<times> json \<Rightarrow> message \<Rightarrow> message option" where
  "decode_field kj m =
     (let k = map to_lower (fst kj); j = snd kj in
      if k = ''id'' then map_option (\<lambda>s. m\<lparr>msg_id := s\<rparr>) (decode_string_field j (msg_id m))
      else if k = ''payload'' then Some (m\<lparr>payload := decode_any j\<rparr>)
      else if k = ''headers'' then Some (m\<lparr>headers := decode_any j\<rparr>)
      else if k = ''target'' then map_option (\<lambda>s. m\<lparr>target := s\<rparr>) (decode_string_field j (target m))
      else if k = ''created_at'' then
        map_option (\<lambda>i. m\<lparr>created_at := i\<rparr>) (decode_int64_field j (created_at m))
      else if k = ''retry_count'' then
        map_option (\<lambda>i. m\<lparr>retry_count := i\<rparr>) (decode_int64_field j (retry_count m))
      else if k = ''next_retry'' then
        map_option (\<lambda>i. m\<lparr>next_retry := i\<rparr>) (decode_int64_field j (next_retry m))
      else Some m)"

fun decode_fields :: "(string \<times> json) list \<Rightarrow> message \<Rightarrow> message option" where
  "decode_fields [] m = Some m"
| "decode_fields (kj # kjs) m =
     (case decode_field kj m of None \<Rightarrow> None | Some m' \<Rightarrow> decode_fields kjs m')"

fun decode_message :: "json \<Rightarrow> message option" where
  "decode_message (JObj kjs) = decode_fields kjs zero_message"
| "decode_message JNull = Some zero_message"
| "decode_message _ = None"

definition marshal_message :: "message \<Rightarrow> string" where
  "marshal_message m = print_json (encode_message m)"

definition unmarshal_message :: "string \<Rightarrow> message option" where
  "unmarshal_message cs = (case parse_json cs of None \<Rightarrow> None | Some j \<Rightarrow> decode_message j)"

section \<open>A message reads back\<close>

subsection \<open>Integers\<close>

lemma digits_of_small: "n < 10 \<Longrightarrow> digits_of n = [char_of (48 + n)]"
  by (simp add: digits_of.simps)

lemma is_digit_char: "n < (10 :: nat) \<Longrightarrow> is_digit (char_of (48 + n))"
  by (simp add: is_digit_def)

lemma digit_val_char: "n < (10 :: nat) \<Longrightarrow> digit_val (char_of (48 + n)) = n"
  by (simp add: digit_val_def)

lemma digits_of_digits: "list_all is_digit (digits_of n)"
proof (induction n rule: digits_of.induct)
  case (1 n)
  then show ?case
    by (subst digits_of.simps) (auto simp: is_digit_char)
qed

lemma digits_of_not_Nil [simp]: "digits_of n \<noteq> []"
  by (subst digits_of.simps) simp

lemma digits_of_lead: "0 < n \<Longrightarrow> hd (digits_of n) \<noteq> CHR ''0''"
proof (induction n rule: digits_of.induct)
  case (1 n)
  show ?case
  proof (cases "n < 10")
    case True
    then have "of_char (hd (digits_of n)) = 48 + n" by (simp add: digits_of_small)
    with 1 show ?thesis by auto
  next
    case False
    with 1 show ?thesis by (subst digits_of.simps) simp
  qed
qed

lemma nat_of_digits_snoc: "nat_of_digits (cs @ [c]) = 10 * nat_of_digits cs + digit_val c"
  by (simp add: nat_of_digits_def)

lemma nat_of_digits_of [simp]: "nat_of_digits (digits_of n) = n"
proof (induction n rule: digits_of.induct)
  case (1 n)
  show ?case
  proof (cases "n < 10")
    case True
    then show ?thesis by (simp add: digits_of_small nat_of_digits_def digit_val_char)
  next
    case False
    with 1 show ?thesis
      by (subst digits_of.simps) (simp add: nat_of_digits_snoc digit_val_char)
  qed
qed

lemma digit_facts: "is_digit c \<Longrightarrow> is_num_char c \<and> c \<noteq> CHR ''-'' \<and> c \<noteq> CHR ''.''"
  by (auto simp: is_digit_def is_num_char_def)

lemma digits_of_Cons:
  obtains c cs where "digits_of n = c # cs" "is_digit c" "c \<noteq> CHR ''-''"
proof -
  obtain c cs where "digits_of n = c # cs" by (cases "digits_of n") auto
  with that digits_of_digits [of n] digit_facts [of c] show ?thesis by auto
qed

lemma digits_of_zero_lead: "hd (digits_of n) = CHR ''0'' \<Longrightarrow> length (digits_of n) = 1"
  using digits_of_lead [of n] by (cases "n = 0") (auto simp: digits_of_small)

lemma span_digits:
  "list_all is_digit ds \<Longrightarrow> takeWhile is_digit ds = ds \<and> dropWhile is_digit ds = []"
  by (induction ds) auto

lemma parse_int64_print [simp]: "parse_int64 (print_int (sint w)) = Some w"
proof -
  obtain c cs where c: "digits_of (nat (sint w)) = c # cs" "c \<noteq> CHR ''-''"
    by (rule digits_of_Cons)
  have read: "int (nat_of_digits (c # cs)) = int (nat (sint w))"
    by (simp flip: c(1))
  have "list_all is_digit (c # cs)" by (simp flip: c(1) add: digits_of_digits)
  then show ?thesis
    using c read in_int64_sint [of w]
    by (auto simp: parse_int64_def print_int_def Let_def digits_of_digits)
qed

lemma split_num_digits:
  assumes "list_all is_digit ds" "ds \<noteq> []" "hd ds = CHR ''0'' \<Longrightarrow> length ds = 1"
  shows "split_num (CHR ''-'' # ds) = Some (True, ds, [], 0)"
    and "split_num ds = Some (False, ds, [], 0)"
proof -
  note span = span_digits [OF assms(1), THEN conjunct1] span_digits [OF assms(1), THEN conjunct2]
  have ok: "\<not> (hd ds = CHR ''0'' \<and> 1 < length ds)" using assms(3) by auto
  show "split_num (CHR ''-'' # ds) = Some (True, ds, [], 0)"
    using ok assms(2) by (simp add: split_num_def span)
  obtain c cs where c: "ds = c # cs" "c \<noteq> CHR ''-''"
    using assms(1,2) digit_facts by (cases ds) auto
  have "split_num ds =
      (let ip = takeWhile is_digit ds; r = dropWhile is_digit ds in
       if ip = [] \<or> (hd ip = CHR ''0'' \<and> 1 < length ip) then None else Some (False, ip, [], 0))"
    using c span by (simp add: split_num_def Let_def)
  then show "split_num ds = Some (False, ds, [], 0)"
    using ok assms(2) by (simp add: span)
qed

lemma valid_num_print [simp]: "valid_num (print_int i)"
proof -
  have chars: "list_all is_num_char (digits_of n)" for n
    using digits_of_digits [of n] digit_facts by (auto simp: list_all_iff)
  note split = split_num_digits [OF digits_of_digits digits_of_not_Nil digits_of_zero_lead]
  show ?thesis
    by (auto simp: valid_num_def print_int_def chars split is_num_char_def)
qed

subsection \<open>Values\<close>

lemma map_put_last:
  "sorted_wrt (<) (map fst m @ [k]) \<Longrightarrow> map_put k v m = m @ [(k, v)]"
proof (induction m)
  case Nil
  then show ?case by simp
next
  case (Cons kv m)
  then have "fst kv < k" by (simp add: sorted_wrt_append)
  with Cons show ?case by (cases kv) auto
qed

lemma map_puts_sorted:
  "sorted_wrt (<) (map fst (m @ kvs)) \<Longrightarrow> map_puts kvs m = m @ kvs"
proof (induction kvs arbitrary: m)
  case Nil
  then show ?case by (simp add: map_puts_def)
next
  case (Cons kv kvs)
  obtain k v where kv: "kv = (k, v)" by (cases kv)
  have "sorted_wrt (<) (map fst m @ [k])"
    using Cons.prems kv by (simp add: sorted_wrt_append)
  then have "map_put k v m = m @ [kv]" using kv by (simp add: map_put_last)
  with Cons.IH [of "m @ [kv]"] Cons.prems kv show ?case by (simp add: map_puts_def)
qed

lemma decode_encode_any: "wf_any v \<Longrightarrow> decode_any (encode_any v) = v"
proof (induction v rule: encode_any.induct)
  case (5 vs)
  then show ?case by (simp add: list_all_iff map_idI)
next
  case (6 kvs)
  have "map (\<lambda>(k, j). (k, decode_any j)) (map (\<lambda>(k, v). (k, encode_any v)) kvs) = kvs"
    using 6 by (auto simp: list_all_iff intro!: map_idI)
  with 6 map_puts_sorted [of "[]" kvs] show ?case by simp
qed simp_all

lemma wf_encode_any: "wf_any v \<Longrightarrow> wf_json (encode_any v)"
  by (induction v rule: encode_any.induct) (auto simp: list_all_iff)

subsection \<open>Messages\<close>

definition wf_message :: "message \<Rightarrow> bool" where
  "wf_message m \<longleftrightarrow> wf_any (payload m) \<and> wf_any (headers m)"

lemma wf_encode_message: "wf_message m \<Longrightarrow> wf_json (encode_message m)"
  by (simp add: wf_message_def encode_message_def encode_int64_def wf_encode_any)

lemma decode_field_simps [simp]:
  "decode_field (''id'', JStr s) m = Some (m\<lparr>msg_id := s\<rparr>)"
  "decode_field (''payload'', j) m = Some (m\<lparr>payload := decode_any j\<rparr>)"
  "decode_field (''headers'', j) m = Some (m\<lparr>headers := decode_any j\<rparr>)"
  "decode_field (''target'', JStr s) m = Some (m\<lparr>target := s\<rparr>)"
  "decode_field (''created_at'', encode_int64 w) m = Some (m\<lparr>created_at := w\<rparr>)"
  "decode_field (''retry_count'', encode_int64 w) m = Some (m\<lparr>retry_count := w\<rparr>)"
  "decode_field (''next_retry'', encode_int64 w) m = Some (m\<lparr>next_retry := w\<rparr>)"
  by (simp_all add: decode_field_def to_lower_def encode_int64_def)

lemma decode_encode_message: "wf_message m \<Longrightarrow> decode_message (encode_message m) = Some m"
  by (cases m) (simp add: encode_message_def wf_message_def decode_encode_any zero_message_def)

lemma unmarshal_marshal: "wf_message m \<Longrightarrow> unmarshal_message (marshal_message m) = Some m"
  by (simp add: unmarshal_message_def marshal_message_def parse_json_print wf_encode_message
      decode_encode_message)

section \<open>Property\<close>


definition sample_message :: message where
  "sample_message = \<lparr>msg_id = ''order-1'',
     payload = VMap [(''amount'', VNum ''12.5''), (''items'', VArr [VStr ''a'', VNil, VBool True])],
     headers = VMap [(''trace'', VStr ''x'')], target = ''billing'', created_at = 1700000000,
     retry_count = 2, next_retry = - 1\<rparr>"


end
