(* ===== verification/Disk.thy ===== *)
theory Disk
  imports Models
begin

text \<open>
  What the broker uses of \<open>os\<close> and \<open>path/filepath\<close>: lexical paths (\<open>Clean\<close>, \<open>Join\<close>,
  \<open>Ext\<close> on Unix) and a file system of directories and files.  Which operations fail is
  decided by two fields of the disk that no operation changes, so every theorem that does
  not mention them holds for every pattern of failures.
\<close>

section \<open>Paths\<close>

definition slash :: char where "slash = CHR ''/''"

fun split_slash :: "string \<Rightarrow> string list" where
  "split_slash [] = [[]]"
| "split_slash (c # cs) =
     (if c = slash then [] # split_slash cs
      else (case split_slash cs of e # es \<Rightarrow> (c # e) # es | [] \<Rightarrow> [[c]]))"

fun clean_elems :: "bool \<Rightarrow> string list \<Rightarrow> string list \<Rightarrow> string list" where
  "clean_elems rooted out [] = out"
| "clean_elems rooted out (e # es) =
     (if e = '''' \<or> e = ''.'' then clean_elems rooted out es
      else if e = ''..'' then
        (if out \<noteq> [] \<and> last out \<noteq> ''..'' then clean_elems rooted (butlast out) es
         else if rooted then clean_elems rooted out es
         else clean_elems rooted (out @ [e]) es)
      else clean_elems rooted (out @ [e]) es)"

definition is_rooted :: "string \<Rightarrow> bool" where
  "is_rooted p \<longleftrightarrow> p \<noteq> [] \<and> hd p = slash"

text \<open>\<open>filepath.Clean\<close>.\<close>

definition render_path :: "bool \<Rightarrow> string list \<Rightarrow> string" where
  "render_path rooted es =
     (if rooted then ''/'' @ join ''/'' es else if es = [] then ''.'' else join ''/'' es)"

definition clean_path :: "string \<Rightarrow> string" where
  "clean_path p = render_path (is_rooted p) (clean_elems (is_rooted p) [] (split_slash p))"

text \<open>\<open>filepath.Join\<close> of two elements: empty elements are left out.\<close>

definition join_path :: "string \<Rightarrow> string \<Rightarrow> string" where
  "join_path a b =
     (if a \<noteq> '''' then clean_path (a @ ''/'' @ b) else if b \<noteq> '''' then clean_path b else '''')"

text \<open>The last element of a path and the directory it is in.\<close>

definition base_name :: "string \<Rightarrow> string" where
  "base_name p = rev (takeWhile (\<lambda>c. c \<noteq> slash) (rev p))"

definition parent_dir :: "string \<Rightarrow> string" where
  "parent_dir p =
     (let r = dropWhile (\<lambda>c. c \<noteq> slash) (rev p) in
      if r = [] then ''.'' else if tl r = [] then ''/'' else rev (tl r))"

text \<open>\<open>filepath.Ext\<close> of a name without separators: from its last dot on.\<close>

definition file_ext :: "string \<Rightarrow> string" where
  "file_ext n =
     (let r = takeWhile (\<lambda>c. c \<noteq> CHR ''.'') (rev n) in
      if r = rev n then '''' else CHR ''.'' # rev r)"

text \<open>A name in a clean directory.\<close>

definition child :: "string \<Rightarrow> string \<Rightarrow> string" where
  "child dir n = (if dir = ''.'' then n else if dir = ''/'' then ''/'' @ n else dir @ ''/'' @ n)"

section \<open>The file system\<close>

datatype io_op =
    OpMkdir string
  | OpReadDir string
  | OpRead string
  | OpWrite string
  | OpRemove string
  | OpRename string string

text \<open>
  \<open>files\<close> maps clean paths to contents and \<open>dirs\<close> lists the directories.  \<open>io_ok\<close> says
  which operations the system lets through; \<open>torn p = Some n\<close> makes a write to \<open>p\<close> fail
  after \<open>n\<close> bytes, with the file already truncated.
\<close>

record disk =
  files :: "(string \<times> string) list"
  dirs :: "string list"
  io_ok :: "io_op \<Rightarrow> bool"
  torn :: "string \<Rightarrow> nat option"

definition file_at :: "disk \<Rightarrow> string \<Rightarrow> string option" where
  "file_at d p = map_of (files d) p"

definition put_file :: "string \<Rightarrow> string \<Rightarrow> disk \<Rightarrow> disk" where
  "put_file p data d = d\<lparr>files := AList.update p data (files d)\<rparr>"

definition del_file :: "string \<Rightarrow> disk \<Rightarrow> disk" where
  "del_file p d = d\<lparr>files := AList.delete p (files d)\<rparr>"

definition is_dir :: "disk \<Rightarrow> string \<Rightarrow> bool" where
  "is_dir d p \<longleftrightarrow> p = ''.'' \<or> p = ''/'' \<or> p \<in> set (dirs d)"

definition can_create :: "disk \<Rightarrow> string \<Rightarrow> bool" where
  "can_create d p \<longleftrightarrow> is_dir d (parent_dir p) \<and> \<not> is_dir d p"

definition os_write_file :: "string \<Rightarrow> string \<Rightarrow> disk \<Rightarrow> go_error option \<times> disk" where
  "os_write_file p data d =
     (if \<not> can_create d p \<or> \<not> io_ok d (OpWrite p) then (Some (SysErr (''open '' @ p)), d)
      else (case torn d p of
              Some n \<Rightarrow> (Some (SysErr (''write '' @ p)), put_file p (take n data) d)
            | None \<Rightarrow> (None, put_file p data d)))"

definition os_read_file :: "string \<Rightarrow> disk \<Rightarrow> go_error + string" where
  "os_read_file p d =
     (case file_at d p of
        None \<Rightarrow> Inl (SysErr (''open '' @ p))
      | Some data \<Rightarrow> if io_ok d (OpRead p) then Inr data else Inl (SysErr (''read '' @ p)))"

definition os_remove :: "string \<Rightarrow> disk \<Rightarrow> go_error option \<times> disk" where
  "os_remove p d =
     (if file_at d p = None \<or> \<not> io_ok d (OpRemove p) then (Some (SysErr (''remove '' @ p)), d)
      else (None, del_file p d))"

definition os_rename :: "string \<Rightarrow> string \<Rightarrow> disk \<Rightarrow> go_error option \<times> disk" where
  "os_rename p q d =
     (case file_at d p of
        None \<Rightarrow> (Some (SysErr (''rename '' @ p)), d)
      | Some data \<Rightarrow>
          if can_create d q \<and> io_ok d (OpRename p q)
          then (None, put_file q data (del_file p d))
          else (Some (SysErr (''rename '' @ p)), d))"

text \<open>\<open>os.MkdirAll\<close>: the directory and those above it.\<close>

fun ancestors :: "string list \<Rightarrow> bool \<Rightarrow> string list \<Rightarrow> string list" where
  "ancestors done rooted [] = []"
| "ancestors done rooted (e # es) =
     render_path rooted (done @ [e]) # ancestors (done @ [e]) rooted es"

definition os_mkdir_all :: "string \<Rightarrow> disk \<Rightarrow> disk" where
  "os_mkdir_all p d =
     (let r = is_rooted p;
          ps = ancestors [] r (clean_elems r [] (split_slash p))
      in if io_ok d (OpMkdir p) \<and> p \<noteq> '''' \<and> list_all (\<lambda>q. file_at d q = None) ps
         then d\<lparr>dirs := dirs d @ filter (\<lambda>q. q \<notin> set (dirs d)) ps\<rparr> else d)"

text \<open>\<open>os.ReadDir\<close>: the entries of a directory, sorted by name, with a flag for directories.\<close>

definition dir_entries :: "disk \<Rightarrow> string \<Rightarrow> (string \<times> bool) list" where
  "dir_entries d p =
     map (\<lambda>q. (base_name q, False)) (filter (\<lambda>q. parent_dir q = p) (map fst (files d))) @
     map (\<lambda>q. (base_name q, True)) (filter (\<lambda>q. parent_dir q = p) (dirs d))"

definition os_read_dir :: "string \<Rightarrow> disk \<Rightarrow> go_error + (string \<times> bool) list" where
  "os_read_dir p d =
     (if p \<noteq> '''' \<and> is_dir d (clean_path p) \<and> io_ok d (OpReadDir p)
      then Inr (sort_key fst (dir_entries d (clean_path p)))
      else Inl (SysErr (''open '' @ p)))"

section \<open>Facts on paths\<close>

definition plain_name :: "string \<Rightarrow> bool" where
  "plain_name n \<longleftrightarrow> slash \<notin> set n \<and> n \<notin> {'''', ''.'', ''..''}"

lemma split_slash_not_Nil [simp]: "split_slash p \<noteq> []"
  by (induction p) (auto split: list.splits)

lemma split_slash_plain: "slash \<notin> set n \<Longrightarrow> split_slash n = [n]"
  by (induction n) auto

lemma split_slash_append: "slash \<notin> set n \<Longrightarrow> split_slash (a @ slash # n) = split_slash a @ [n]"
proof (induction a)
  case Nil
  then show ?case by (simp add: split_slash_plain)
next
  case (Cons c a)
  then show ?case by (auto split: list.splits simp: Cons_eq_append_conv)
qed

lemma split_slash_parts: "e \<in> set (split_slash p) \<Longrightarrow> slash \<notin> set e"
  by (induction p arbitrary: e) (auto split: list.splits if_splits)

lemma clean_elems_append:
  "plain_name n \<Longrightarrow> clean_elems r out (es @ [n]) = clean_elems r out es @ [n]"
  by (induction r out es rule: clean_elems.induct) (auto simp: plain_name_def)

definition path_elem :: "string \<Rightarrow> bool" where
  "path_elem e \<longleftrightarrow> slash \<notin> set e \<and> e \<noteq> '''' \<and> e \<noteq> ''.''"

lemma clean_elems_parts:
  "\<forall>e \<in> set es. slash \<notin> set e \<Longrightarrow> \<forall>e \<in> set out. path_elem e \<Longrightarrow>
   \<forall>e \<in> set (clean_elems r out es). path_elem e"
proof (induction r out es rule: clean_elems.induct)
  case (2 rooted out e es)
  have b: "\<forall>x \<in> set (butlast out). path_elem x" using "2.prems"(2) by (auto dest: in_set_butlastD)
  consider (skip) "e = [] \<or> e = ''.''"
    | (up) "e = ''..''" "out \<noteq> [] \<and> last out \<noteq> ''..''"
    | (top) "e = ''..''" "\<not> (out \<noteq> [] \<and> last out \<noteq> ''..'')" rooted
    | (stay) "e = ''..''" "\<not> (out \<noteq> [] \<and> last out \<noteq> ''..'')" "\<not> rooted"
    | (keep) "e \<noteq> []" "e \<noteq> ''.''" "e \<noteq> ''..''"
    by blast
  then show ?case
  proof cases
    case skip
    with "2.IH"(1) "2.prems" show ?thesis by simp
  next
    case up
    with "2.IH"(2) "2.prems" b show ?thesis by simp
  next
    case top
    then have "clean_elems rooted out (e # es) = clean_elems rooted out es" by auto
    with top "2.IH"(3) "2.prems" show ?thesis by (simp del: clean_elems.simps)
  next
    case stay
    then have "path_elem e" by (simp add: path_elem_def slash_def)
    then have "\<forall>e \<in> set (out @ [e]). path_elem e" using "2.prems"(2) by simp
    moreover have "\<forall>e \<in> set es. slash \<notin> set e" using "2.prems"(1) by simp
    ultimately have "\<forall>e \<in> set (clean_elems rooted (out @ [e]) es). path_elem e"
      using stay by (intro "2.IH"(4)) auto
    moreover from stay have "clean_elems rooted out (e # es) = clean_elems rooted (out @ [e]) es"
      by auto
    ultimately show ?thesis by (simp only:)
  next
    case keep
    then have "path_elem e" using "2.prems" by (simp add: path_elem_def)
    with keep "2.IH"(5) "2.prems" show ?thesis by simp
  qed
qed simp

lemma join_snoc: "es \<noteq> [] \<Longrightarrow> join sep (es @ [n]) = join sep es @ sep @ n"
  by (induction sep es rule: join.induct) auto

lemma slash_string: "''/'' = [slash]"
  by (simp add: slash_def)

lemma join_Cons: "join sep (e # es) = e @ (if es = [] then [] else sep @ join sep es)"
  by (cases es) simp_all

lemma join_path_elems:
  assumes "\<forall>e \<in> set es. path_elem e" "es \<noteq> []"
  shows "join ''/'' es \<noteq> [] \<and> hd (join ''/'' es) \<noteq> slash \<and> join ''/'' es \<noteq> ''.''"
proof -
  obtain e es' where es: "es = e # es'" using assms(2) by (cases es) auto
  then have e: "slash \<notin> set e" "e \<noteq> []" "e \<noteq> ''.''" using assms(1) by (auto simp: path_elem_def)
  then obtain c cs where c: "e = c # cs" "c \<noteq> slash" by (cases e) auto
  show ?thesis
    using e c by (auto simp: es join_Cons)
qed

lemma render_snoc:
  assumes "\<forall>e \<in> set es. path_elem e"
  shows "render_path r (es @ [n]) = child (render_path r es) n"
proof (cases "es = []")
  case True
  then show ?thesis by (simp add: render_path_def child_def)
next
  case False
  note j = join_path_elems [OF assms False]
  then have "join ''/'' es \<noteq> [slash]" by (metis list.sel(1))
  then have "join ''/'' es \<noteq> ''/''" by (simp add: slash_string)
  with j show ?thesis using False by (simp add: render_path_def child_def join_snoc)
qed

lemma join_path_plain:
  assumes "plain_name n"
  shows "join_path dir n = child (clean_path dir) n"
proof (cases "dir = ''''")
  case True
  moreover have "\<not> is_rooted n"
    using assms by (cases n) (auto simp: is_rooted_def plain_name_def)
  ultimately show ?thesis using assms
    by (simp add: join_path_def clean_path_def plain_name_def split_slash_plain
        render_path_def child_def is_rooted_def)
next
  case False
  have parts: "\<forall>e \<in> set (clean_elems (is_rooted dir) [] (split_slash dir)). path_elem e"
    by (rule clean_elems_parts) (auto dest: split_slash_parts)
  have "is_rooted (dir @ slash # n) = is_rooted dir" using False by (simp add: is_rooted_def)
  moreover have "split_slash (dir @ slash # n) = split_slash dir @ [n]"
    using assms by (simp add: plain_name_def split_slash_append)
  ultimately have "clean_path (dir @ slash # n) = child (clean_path dir) n"
    using render_snoc [OF parts] assms by (simp add: clean_path_def clean_elems_append)
  with False show ?thesis by (simp add: join_path_def slash_string)
qed

lemma render_path_not_Nil: "\<forall>e \<in> set es. path_elem e \<Longrightarrow> render_path r es \<noteq> ''''"
  using join_path_elems by (simp add: render_path_def)

lemma clean_path_not_Nil [simp]: "clean_path p \<noteq> ''''"
  unfolding clean_path_def
  by (rule render_path_not_Nil, rule clean_elems_parts) (auto dest: split_slash_parts)

lemma rev_plain:
  "slash \<notin> set n \<Longrightarrow> takeWhile (\<lambda>c. c \<noteq> slash) (rev n @ r) = rev n @ takeWhile (\<lambda>c. c \<noteq> slash) r"
  "slash \<notin> set n \<Longrightarrow> dropWhile (\<lambda>c. c \<noteq> slash) (rev n @ r) = dropWhile (\<lambda>c. c \<noteq> slash) r"
  by (rule takeWhile_append2 dropWhile_append2, auto)+

lemma child_rev:
  "rev (child d n) = rev n @ (if d = ''.'' then [] else if d = ''/'' then [slash] else slash # rev d)"
  by (simp add: child_def slash_def)

lemma base_name_child [simp]: "slash \<notin> set n \<Longrightarrow> base_name (child d n) = n"
  using rev_plain(1) [of n "[]"] by (simp add: base_name_def child_rev rev_plain)

lemma parent_dir_child [simp]: "slash \<notin> set n \<Longrightarrow> d \<noteq> [] \<Longrightarrow> parent_dir (child d n) = d"
  using rev_plain(2) [of n "[]"]
  by (simp add: parent_dir_def child_rev rev_plain slash_string)

lemma child_inject: "slash \<notin> set n \<Longrightarrow> slash \<notin> set n' \<Longrightarrow> child d n = child d n' \<Longrightarrow> n = n'"
  using base_name_child by metis

section \<open>Facts on the file system\<close>

lemma file_at_put [simp]: "file_at (put_file p x d) q = (if q = p then Some x else file_at d q)"
  by (simp add: file_at_def put_file_def)

lemma file_at_del [simp]: "file_at (del_file p d) q = (if q = p then None else file_at d q)"
  by (simp add: file_at_def del_file_def)

lemma put_del_frame [simp]:
  "dirs (put_file p x d) = dirs d" "io_ok (put_file p x d) = io_ok d" "torn (put_file p x d) = torn d"
  "dirs (del_file p d) = dirs d" "io_ok (del_file p d) = io_ok d" "torn (del_file p d) = torn d"
  by (simp_all add: put_file_def del_file_def)

lemma is_dir_frame [simp]: "is_dir (put_file p x d) q = is_dir d q" "is_dir (del_file p d) q = is_dir d q"
  by (simp_all add: is_dir_def)

lemma can_create_frame [simp]:
  "can_create (put_file p x d) q = can_create d q" "can_create (del_file p d) q = can_create d q"
  by (simp_all add: can_create_def)

text \<open>The parts of a disk no operation of the broker changes.\<close>

definition same_system :: "disk \<Rightarrow> disk \<Rightarrow> bool" where
  "same_system d d' \<longleftrightarrow> dirs d' = dirs d \<and> io_ok d' = io_ok d \<and> torn d' = torn d"

lemma same_system_refl [simp]: "same_system d d"
  by (simp add: same_system_def)

lemma same_system_trans: "same_system a b \<Longrightarrow> same_system b c \<Longrightarrow> same_system a c"
  by (simp add: same_system_def)

lemma os_ops_same_system:
  "same_system d (snd (os_write_file p x d))"
  "same_system d (snd (os_remove p d))"
  "same_system d (snd (os_rename p q d))"
  by (auto simp: same_system_def os_write_file_def os_remove_def os_rename_def split: option.splits)

text \<open>A write that reports success has written its data; no write touches another file.\<close>

lemma os_write_file_ok: "os_write_file p x d = (None, d') \<Longrightarrow> d' = put_file p x d"
  by (auto simp: os_write_file_def split: if_splits option.splits)

lemma os_write_file_other: "os_write_file p x d = (r, d') \<Longrightarrow> q \<noteq> p \<Longrightarrow> file_at d' q = file_at d q"
  by (auto simp: os_write_file_def split: if_splits option.splits)

lemma os_remove_ok: "os_remove p d = (None, d') \<Longrightarrow> d' = del_file p d"
  by (auto simp: os_remove_def split: if_splits)

lemma os_remove_failed: "os_remove p d = (Some e, d') \<Longrightarrow> d' = d"
  by (auto simp: os_remove_def split: if_splits)

text \<open>A disk on which nothing goes wrong below the directories that exist.\<close>

definition healthy :: "disk \<Rightarrow> bool" where
  "healthy d \<longleftrightarrow> (\<forall>op. io_ok d op) \<and> (\<forall>p. torn d p = None) \<and> map_ok (files d)"

lemma healthy_put [simp]: "healthy d \<Longrightarrow> healthy (put_file p x d)"
  by (simp add: healthy_def put_file_def)

lemma healthy_del [simp]: "healthy d \<Longrightarrow> healthy (del_file p d)"
  by (simp add: healthy_def del_file_def)

lemma healthy_write: "healthy d \<Longrightarrow> can_create d p \<Longrightarrow> os_write_file p x d = (None, put_file p x d)"
  by (simp add: healthy_def os_write_file_def)

lemma healthy_remove: "healthy d \<Longrightarrow> file_at d p \<noteq> None \<Longrightarrow> os_remove p d = (None, del_file p d)"
  by (simp add: healthy_def os_remove_def)

lemma healthy_rename:
  "healthy d \<Longrightarrow> file_at d p = Some x \<Longrightarrow> can_create d q \<Longrightarrow>
   os_rename p q d = (None, put_file q x (del_file p d))"
  by (simp add: healthy_def os_rename_def)

lemma healthy_read: "healthy d \<Longrightarrow> file_at d p = Some x \<Longrightarrow> os_read_file p d = Inr x"
  by (simp add: healthy_def os_read_file_def)

text \<open>A disk with the broker's two directories, on which every operation succeeds.\<close>

definition calm_disk :: disk where
  "calm_disk = \<lparr>files = [], dirs = [''data'', ''data/messages'', ''data/dead_letter''],
     io_ok = (\<lambda>_. True), torn = (\<lambda>_. None)\<rparr>"

lemma healthy_calm [simp]: "healthy calm_disk"
  by (simp add: healthy_def calm_disk_def)

end
