(* ===== verification/Message_Store.thy ===== *)
theory Message_Store
  imports Disk
begin

text \<open>
  The files of messages: \<open>SaveToDisk\<close> and \<open>RemoveFromDisk\<close> of \<open>pkg/broker/broker.go\<close>, the
  interface the queue relies on (\<open>message_store\<close>), and what follows from it about the set
  of messages a disk holds.
\<close>

section \<open>One file per message\<close>

text \<open>\<open>filepath.Join(dir, fmt.Sprintf("%s.json", id))\<close>.\<close>

definition message_file :: "string \<Rightarrow> string \<Rightarrow> string" where
  "message_file dir i = join_path dir (i @ ''.json'')"

definition save_to_disk :: "string \<Rightarrow> message \<Rightarrow> disk \<Rightarrow> go_error option \<times> disk" where
  "save_to_disk dir msg d =
     (let filename = message_file dir (msg_id msg) in
      case os_write_file filename (marshal_message msg) d of
        (Some e, d') \<Rightarrow> (Some (WriteFailed filename e), d')
      | (None, d') \<Rightarrow> (None, d'))"

definition remove_from_disk :: "string \<Rightarrow> string \<Rightarrow> disk \<Rightarrow> go_error option \<times> disk" where
  "remove_from_disk dir i d = os_remove (message_file dir i) d"

text \<open>The message a file of the store holds, if it holds one.\<close>

definition stored :: "string \<Rightarrow> disk \<Rightarrow> string \<Rightarrow> message option" where
  "stored dir d i =
     (case file_at d (message_file dir i) of None \<Rightarrow> None | Some s \<Rightarrow> unmarshal_message s)"

text \<open>
  An identifier without separators names a file inside the directory; one with separators
  can name any file (the identifier comes from the client and is not checked).
\<close>

definition plain_id :: "string \<Rightarrow> bool" where
  "plain_id i \<longleftrightarrow> slash \<notin> set i"

lemma plain_name_id: "plain_id i \<Longrightarrow> plain_name (i @ ''.json'')"
  by (auto simp: plain_id_def plain_name_def slash_def append_eq_Cons_conv)

lemma message_file_child:
  "plain_id i \<Longrightarrow> message_file dir i = child (clean_path dir) (i @ ''.json'')"
  by (simp add: message_file_def join_path_plain plain_name_id)

lemma message_file_base:
  assumes "plain_id i" "plain_id j" "message_file dir i = message_file dir' j"
  shows "i = j"
  using assms plain_name_id [of i] plain_name_id [of j] base_name_child
  by (metis message_file_child plain_name_def append_same_eq)

lemma message_file_inject:
  assumes "plain_id i" "plain_id j"
  shows "message_file dir i = message_file dir j \<longleftrightarrow> i = j"
  using assms child_inject [of "i @ ''.json''" "j @ ''.json''" "clean_path dir"]
    plain_name_id [of i] plain_name_id [of j]
  by (auto simp: message_file_child plain_name_def)

lemma parent_message_file:
  "plain_id i \<Longrightarrow> parent_dir (message_file dir i) = clean_path dir"
  using plain_name_id [of i] by (simp add: message_file_child plain_name_def)

lemma base_message_file:
  "plain_id i \<Longrightarrow> base_name (message_file dir i) = i @ ''.json''"
  using plain_name_id [of i] by (simp add: message_file_child plain_name_def)

lemma save_to_disk_ok:
  "save_to_disk dir m d = (None, d') \<Longrightarrow> d' = put_file (message_file dir (msg_id m)) (marshal_message m) d"
  by (auto simp: save_to_disk_def Let_def split: prod.splits option.splits dest: os_write_file_ok)

lemma save_to_disk_other:
  "save_to_disk dir m d = (r, d') \<Longrightarrow> p \<noteq> message_file dir (msg_id m) \<Longrightarrow> file_at d' p = file_at d p"
  by (auto simp: save_to_disk_def Let_def split: prod.splits option.splits dest: os_write_file_other)

section \<open>The interface of a store of messages\<close>

locale message_store =
  fixes lookup :: "'d \<Rightarrow> string \<Rightarrow> message option"
    and save :: "message \<Rightarrow> 'd \<Rightarrow> go_error option \<times> 'd"
    and remove :: "string \<Rightarrow> 'd \<Rightarrow> go_error option \<times> 'd"
    and ok_id :: "string \<Rightarrow> bool"
  assumes save_ok: "save m d = (None, d') \<Longrightarrow> wf_message m \<Longrightarrow> lookup d' (msg_id m) = Some m"
    and save_other: "save m d = (r, d') \<Longrightarrow> ok_id (msg_id m) \<Longrightarrow> ok_id i \<Longrightarrow> i \<noteq> msg_id m \<Longrightarrow>
      lookup d' i = lookup d i"
    and remove_ok: "remove i d = (None, d') \<Longrightarrow> lookup d' i = None"
    and remove_failed: "remove i d = (Some e, d') \<Longrightarrow> d' = d"
    and remove_other: "remove i d = (r, d') \<Longrightarrow> ok_id i \<Longrightarrow> ok_id j \<Longrightarrow> j \<noteq> i \<Longrightarrow>
      lookup d' j = lookup d j"
begin

text \<open>Every one of these messages has a file of its own that reads back as the message.\<close>

definition keeps :: "'d \<Rightarrow> message set \<Rightarrow> bool" where
  "keeps d ms \<longleftrightarrow> (\<forall>m \<in> ms. ok_id (msg_id m) \<and> lookup d (msg_id m) = Some m)"

lemma keeps_subset: "keeps d ms \<Longrightarrow> ms' \<subseteq> ms \<Longrightarrow> keeps d ms'"
  by (auto simp: keeps_def)

lemma keeps_other:
  assumes "save m d = (r, d')" "ok_id (msg_id m)" "keeps d ms" "msg_id m \<notin> msg_id ` ms"
  shows "keeps d' ms"
  unfolding keeps_def
proof
  fix x assume x: "x \<in> ms"
  with assms(3,4) have "ok_id (msg_id x)" "lookup d (msg_id x) = Some x" "msg_id x \<noteq> msg_id m"
    by (auto simp: keeps_def image_iff)
  then show "ok_id (msg_id x) \<and> lookup d' (msg_id x) = Some x"
    using save_other [OF assms(1,2)] by simp
qed

lemma keeps_save:
  assumes "save m d = (None, d')" "wf_message m" "ok_id (msg_id m)" "keeps d ms"
    "msg_id m \<notin> msg_id ` ms"
  shows "keeps d' (insert m ms)"
  using keeps_other [OF assms(1,3,4,5)] save_ok [OF assms(1,2)] assms(3) by (auto simp: keeps_def)

lemma keeps_remove:
  assumes "remove i d = (r, d')" "ok_id i" "keeps d ms" "i \<notin> msg_id ` ms"
  shows "keeps d' ms"
  unfolding keeps_def
proof
  fix x assume x: "x \<in> ms"
  with assms(3,4) have "ok_id (msg_id x)" "lookup d (msg_id x) = Some x" "msg_id x \<noteq> i"
    by (auto simp: keeps_def)
  then show "ok_id (msg_id x) \<and> lookup d' (msg_id x) = Some x"
    using remove_other [OF assms(1,2)] by simp
qed

end

interpretation store: message_store "stored dir" "save_to_disk dir" "remove_from_disk dir" plain_id
  for dir
proof
  fix m d d' r e i j
  show "stored dir d' (msg_id m) = Some m"
    if "save_to_disk dir m d = (None, d')" "wf_message m"
    using save_to_disk_ok [OF that(1)] that(2) by (simp add: stored_def unmarshal_marshal)
  show "stored dir d' i = stored dir d i"
    if "save_to_disk dir m d = (r, d')" "plain_id (msg_id m)" "plain_id i" "i \<noteq> msg_id m"
    using save_to_disk_other [OF that(1)] that message_file_inject by (simp add: stored_def)
  show "stored dir d' i = None" if "remove_from_disk dir i d = (None, d')"
    using that by (auto simp: remove_from_disk_def stored_def dest: os_remove_ok)
  show "d' = d" if "remove_from_disk dir i d = (Some e, d')"
    using that by (auto simp: remove_from_disk_def dest: os_remove_failed)
  show "stored dir d' j = stored dir d j"
    if "remove_from_disk dir i d = (r, d')" "plain_id i" "plain_id j" "j \<noteq> i"
    using that
    by (cases r) (auto simp: remove_from_disk_def stored_def message_file_inject
        dest!: os_remove_ok os_remove_failed)
qed

end
