(* ===== verification/Telemetry.thy ===== *)
theory Telemetry
  imports Message_Store
begin

text \<open>
  \<open>pkg/telemetry/telemetry.go\<close>: the counters, gauges and the histogram that the broker and
  the dispatcher update, and the world their operations act on: the disk and these metrics.
\<close>

record metrics =
  messages_pushed :: nat
  messages_dispatched :: nat
  messages_failed :: "(string \<times> nat) list"
  queue_size :: int
  active_workers :: int
  dispatch_latency :: "int list"

definition zero_metrics :: metrics where
  "zero_metrics = \<lparr>messages_pushed = 0, messages_dispatched = 0, messages_failed = [],
     queue_size = 0, active_workers = 0, dispatch_latency = []\<rparr>"

record world =
  wdisk :: disk
  wmetrics :: metrics

definition set_queue_size :: "nat \<Rightarrow> world \<Rightarrow> world" where
  "set_queue_size n w = w\<lparr>wmetrics := (wmetrics w)\<lparr>queue_size := int n\<rparr>\<rparr>"

definition inc_pushed :: "world \<Rightarrow> world" where
  "inc_pushed w = w\<lparr>wmetrics := (wmetrics w)\<lparr>messages_pushed := messages_pushed (wmetrics w) + 1\<rparr>\<rparr>"

definition inc_dispatched :: "world \<Rightarrow> world" where
  "inc_dispatched w =
     w\<lparr>wmetrics := (wmetrics w)\<lparr>messages_dispatched := messages_dispatched (wmetrics w) + 1\<rparr>\<rparr>"

definition failed_count :: "metrics \<Rightarrow> string \<Rightarrow> nat" where
  "failed_count m label = (case map_of (messages_failed m) label of None \<Rightarrow> 0 | Some n \<Rightarrow> n)"

definition inc_failed :: "string \<Rightarrow> world \<Rightarrow> world" where
  "inc_failed label w =
     w\<lparr>wmetrics := (wmetrics w)\<lparr>messages_failed :=
         AList.update label (failed_count (wmetrics w) label + 1) (messages_failed (wmetrics w))\<rparr>\<rparr>"

definition observe_latency :: "int \<Rightarrow> world \<Rightarrow> world" where
  "observe_latency d w =
     w\<lparr>wmetrics := (wmetrics w)\<lparr>dispatch_latency := dispatch_latency (wmetrics w) @ [d]\<rparr>\<rparr>"

definition set_active_workers :: "int \<Rightarrow> world \<Rightarrow> world" where
  "set_active_workers n w = w\<lparr>wmetrics := (wmetrics w)\<lparr>active_workers := n\<rparr>\<rparr>"

lemma wdisk_metrics [simp]:
  "wdisk (set_queue_size n w) = wdisk w" "wdisk (inc_pushed w) = wdisk w"
  "wdisk (inc_dispatched w) = wdisk w" "wdisk (inc_failed l w) = wdisk w"
  "wdisk (observe_latency d w) = wdisk w" "wdisk (set_active_workers k w) = wdisk w"
  by (simp_all add: set_queue_size_def inc_pushed_def inc_dispatched_def inc_failed_def
      observe_latency_def set_active_workers_def)

end
