(* ===== verification/Channels.thy ===== *)
theory Channels
  imports Go_Prelude
begin

text \<open>
  Buffered Go channels.  The program sends only inside \<open>select\<close> with a
  \<open>default\<close> branch, so a send to a full channel drops the value and never blocks
  (\<open>broadcast\<close> and \<open>notify\<close> of \<open>pkg/broker\<close>, the dispatcher's task channel).
\<close>

record 'a chan =
  chan_buf :: "'a list"
  chan_cap :: nat

definition make_chan :: "nat \<Rightarrow> 'a chan" where
  "make_chan n = \<lparr>chan_buf = [], chan_cap = n\<rparr>"

definition chan_full :: "'a chan \<Rightarrow> bool" where
  "chan_full c \<longleftrightarrow> chan_cap c \<le> length (chan_buf c)"

text \<open>\<open>select { case ch <- x: ... default: ... }\<close>: the flag says which branch ran.\<close>

definition try_send :: "'a \<Rightarrow> 'a chan \<Rightarrow> bool \<times> 'a chan" where
  "try_send x c =
     (if chan_full c then (False, c) else (True, c\<lparr>chan_buf := chan_buf c @ [x]\<rparr>))"

abbreviation send_or_drop :: "'a \<Rightarrow> 'a chan \<Rightarrow> 'a chan" where
  "send_or_drop x c \<equiv> snd (try_send x c)"

text \<open>A receive; \<open>None\<close> when the receiver would block.\<close>

definition try_recv :: "'a chan \<Rightarrow> ('a \<times> 'a chan) option" where
  "try_recv c =
     (case chan_buf c of [] \<Rightarrow> None | x # xs \<Rightarrow> Some (x, c\<lparr>chan_buf := xs\<rparr>))"

definition chan_ok :: "'a chan \<Rightarrow> bool" where
  "chan_ok c \<longleftrightarrow> length (chan_buf c) \<le> chan_cap c"

section \<open>The interface of a bounded queue\<close>

text \<open>
  What the senders and receivers rely on: values come out in the order they went in, a
  send succeeds exactly when there is room, and nothing else changes.
\<close>

locale bounded_fifo =
  fixes buf :: "'c \<Rightarrow> 'a list"
    and cap :: "'c \<Rightarrow> nat"
    and send :: "'a \<Rightarrow> 'c \<Rightarrow> bool \<times> 'c"
    and recv :: "'c \<Rightarrow> ('a \<times> 'c) option"
  assumes send_room: "length (buf c) < cap c \<Longrightarrow> fst (send x c) \<and> buf (snd (send x c)) = buf c @ [x]"
    and send_full: "cap c \<le> length (buf c) \<Longrightarrow> send x c = (False, c)"
    and cap_send: "cap (snd (send x c)) = cap c"
    and recv_None: "recv c = None \<longleftrightarrow> buf c = []"
    and recv_Some: "recv c = Some (x, c') \<Longrightarrow> buf c = x # buf c' \<and> cap c' = cap c"
begin

definition within :: "'c \<Rightarrow> bool" where
  "within c \<longleftrightarrow> length (buf c) \<le> cap c"

lemma send_cases:
  obtains (room) "length (buf c) < cap c" "fst (send x c)" "buf (snd (send x c)) = buf c @ [x]"
  | (full) "cap c \<le> length (buf c)" "send x c = (False, c)"
  using send_room [of c x] send_full [of c x] by (meson not_le)

lemma within_send: "within c \<Longrightarrow> within (snd (send x c))"
  by (cases rule: send_cases [of c x]) (auto simp: within_def cap_send)

lemma within_recv: "within c \<Longrightarrow> recv c = Some (x, c') \<Longrightarrow> within c'"
  using recv_Some [of c x c'] by (simp add: within_def)

text \<open>A send appends its value or nothing: a receiver never sees values out of order.\<close>

lemma buf_send: "buf (snd (send x c)) = buf c @ (if fst (send x c) then [x] else [])"
  by (cases rule: send_cases [of c x]) auto

lemma fst_send_iff: "fst (send x c) \<longleftrightarrow> length (buf c) < cap c"
  by (cases rule: send_cases [of c x]) auto

end

interpretation chan: bounded_fifo chan_buf chan_cap try_send try_recv
  by unfold_locales
    (auto simp: try_send_def chan_full_def try_recv_def split: list.splits)

lemma chan_within [simp]: "chan.within c = chan_ok c"
  by (simp add: chan.within_def chan_ok_def)

lemma chan_ok_make [simp]: "chan_ok (make_chan n)"
  by (simp add: chan_ok_def make_chan_def)

lemma chan_ok_send [simp]: "chan_ok c \<Longrightarrow> chan_ok (snd (try_send x c))"
  using chan.within_send [of c x] by simp

lemma chan_ok_recv: "chan_ok c \<Longrightarrow> try_recv c = Some (x, c') \<Longrightarrow> chan_ok c'"
  using chan.within_recv [of c x c'] by simp

lemma chan_cap_make [simp]: "chan_cap (make_chan n) = n"
  by (simp add: make_chan_def)

lemma chan_buf_make [simp]: "chan_buf (make_chan n) = []"
  by (simp add: make_chan_def)

lemmas chan_cap_send [simp] = chan.cap_send

end
