(* ===== verification/Circuit_Breaker.thy ===== *)
theory Circuit_Breaker
  imports Go_Prelude
begin

text \<open>
  \<open>pkg/circuitbreaker/cb.go\<close>: the breaker record, its event log, and \<open>Execute\<close> as the
  two critical sections around the action (\<open>cb_admit\<close>, \<open>cb_complete\<close>) and as their
  sequential composition (\<open>cb_execute\<close>).  The lemmas give each transition, the
  invariant between the state and the trial flag, and the contract of a guarded call.
\<close>

section \<open>State\<close>

datatype cb_state = StateClosed | StateOpen | StateHalfOpen

text \<open>\<open>State\<close> is an \<open>int\<close> whose constants are numbered by \<open>iota\<close>.\<close>

fun state_code :: "cb_state \<Rightarrow> int" where
  "state_code StateClosed = 0"
| "state_code StateOpen = 1"
| "state_code StateHalfOpen = 2"

instantiation cb_state :: linorder
begin

definition less_eq_cb_state :: "cb_state \<Rightarrow> cb_state \<Rightarrow> bool" where
  "less_eq_cb_state a b \<longleftrightarrow> state_code a \<le> state_code b"

definition less_cb_state :: "cb_state \<Rightarrow> cb_state \<Rightarrow> bool" where
  "less_cb_state a b \<longleftrightarrow> state_code a < state_code b"

instance
proof
  fix x y :: cb_state
  show "x \<le> y \<Longrightarrow> y \<le> x \<Longrightarrow> x = y"
    by (cases x; cases y) (simp_all add: less_eq_cb_state_def)
qed (auto simp: less_eq_cb_state_def less_cb_state_def)

end

text \<open>One line of the telemetry log.\<close>

record cb_event =
  ev_time :: time
  ev_name :: string
  ev_old :: string
  ev_new :: string
  ev_failures :: int

text \<open>
  The breaker.  \<open>cb_log\<close> holds the lines this breaker has appended to the file
  \<open>cb_log_path\<close>, and \<open>cb_log_writable\<close> says whether that file can be opened; no
  operation of the breaker changes the latter.
\<close>

record circuit_breaker =
  cb_failures :: int
  cb_threshold :: int
  cb_timeout :: int64
  cb_st :: cb_state
  cb_last_failure :: time
  cb_in_trial :: bool
  cb_name :: string
  cb_log_path :: string
  cb_log_writable :: bool
  cb_log :: "cb_event list"

definition new_circuit_breaker ::
  "string \<Rightarrow> int \<Rightarrow> int64 \<Rightarrow> string \<Rightarrow> bool \<Rightarrow> circuit_breaker" where
  "new_circuit_breaker name threshold timeout logPath writable =
     \<lparr>cb_failures = 0, cb_threshold = threshold, cb_timeout = timeout,
      cb_st = StateClosed, cb_last_failure = zero_time, cb_in_trial = False,
      cb_name = name, cb_log_path = logPath, cb_log_writable = writable, cb_log = []\<rparr>"

fun state_to_string :: "cb_state \<Rightarrow> string" where
  "state_to_string StateOpen = ''Open''"
| "state_to_string StateHalfOpen = ''Half-Open''"
| "state_to_string StateClosed = ''Closed''"

section \<open>Operations\<close>

definition log_event ::
  "time \<Rightarrow> cb_state \<Rightarrow> cb_state \<Rightarrow> circuit_breaker \<Rightarrow> circuit_breaker" where
  "log_event now old new cb =
     (if cb_log_path cb = '''' \<or> \<not> cb_log_writable cb then cb
      else cb\<lparr>cb_log := cb_log cb @
             [\<lparr>ev_time = now, ev_name = cb_name cb, ev_old = state_to_string old,
               ev_new = state_to_string new, ev_failures = cb_failures cb\<rparr>]\<rparr>)"

text \<open>\<open>time.Since(cb.lastFailure) >= cb.timeout\<close>.\<close>

definition timeout_elapsed :: "time \<Rightarrow> circuit_breaker \<Rightarrow> bool" where
  "timeout_elapsed now cb \<longleftrightarrow>
     sint (cb_timeout cb) \<le> sint (time_sub now (cb_last_failure cb))"

text \<open>The first critical section of \<open>Execute\<close>: \<open>Some e\<close> rejects the call.\<close>

definition cb_admit :: "time \<Rightarrow> circuit_breaker \<Rightarrow> circuit_breaker \<times> go_error option" where
  "cb_admit now cb =
     (let oldState = cb_st cb;
          cb = (if cb_st cb = StateOpen \<and> timeout_elapsed now cb
                then log_event now oldState StateHalfOpen
                       (cb\<lparr>cb_st := StateHalfOpen, cb_failures := 0\<rparr>)
                else cb)
      in if cb_st cb = StateOpen then (cb, Some CircuitOpen)
         else if cb_st cb = StateHalfOpen \<and> cb_in_trial cb then (cb, Some TrialInProgress)
         else if cb_st cb = StateHalfOpen then (cb\<lparr>cb_in_trial := True\<rparr>, None)
         else (cb, None))"

text \<open>The second critical section, with the error the action returned.\<close>

definition cb_complete :: "time \<Rightarrow> go_error option \<Rightarrow> circuit_breaker \<Rightarrow> circuit_breaker" where
  "cb_complete now err cb =
     (let cb = (if cb_st cb = StateHalfOpen then cb\<lparr>cb_in_trial := False\<rparr> else cb);
          oldStateFinal = cb_st cb
      in if err \<noteq> None then
           (let cb = cb\<lparr>cb_failures := cb_failures cb + 1, cb_last_failure := now\<rparr>
            in if cb_st cb = StateHalfOpen \<or> cb_threshold cb \<le> cb_failures cb
               then log_event now oldStateFinal StateOpen (cb\<lparr>cb_st := StateOpen\<rparr>)
               else cb)
         else
           (let cb = (if cb_st cb \<noteq> StateClosed
                      then log_event now oldStateFinal StateClosed cb else cb)
            in cb\<lparr>cb_failures := 0, cb_st := StateClosed\<rparr>))"

text \<open>
  \<open>Execute\<close> with nobody else calling the breaker in between: the action runs on a state
  of its own and reports an error or none.  The two instants are the clock readings of the
  two critical sections.
\<close>

definition cb_execute ::
  "time \<Rightarrow> time \<Rightarrow> ('s \<Rightarrow> go_error option \<times> 's) \<Rightarrow> circuit_breaker \<Rightarrow> 's
     \<Rightarrow> go_error option \<times> circuit_breaker \<times> 's" where
  "cb_execute t0 t1 action cb s =
     (case cb_admit t0 cb of
        (cb1, Some e) \<Rightarrow> (Some e, cb1, s)
      | (cb1, None) \<Rightarrow>
          (case action s of (err, s') \<Rightarrow> (err, cb_complete t1 err cb1, s')))"

definition cb_reset :: "time \<Rightarrow> circuit_breaker \<Rightarrow> circuit_breaker" where
  "cb_reset now cb =
     log_event now (cb_st cb) StateClosed (cb\<lparr>cb_failures := 0, cb_st := StateClosed\<rparr>)"

definition cb_reset_config ::
  "time \<Rightarrow> int \<Rightarrow> int64 \<Rightarrow> circuit_breaker \<Rightarrow> circuit_breaker" where
  "cb_reset_config now threshold timeout cb =
     log_event now (cb_st cb) StateClosed
       (cb\<lparr>cb_threshold := threshold, cb_timeout := timeout, cb_failures := 0,
           cb_st := StateClosed\<rparr>)"

definition get_state :: "circuit_breaker \<Rightarrow> string" where
  "get_state cb =
     (case cb_st cb of StateOpen \<Rightarrow> ''Open'' | StateHalfOpen \<Rightarrow> ''Half-Open''
      | _ \<Rightarrow> ''Closed'')"

definition get_metrics :: "circuit_breaker \<Rightarrow> int \<times> int" where
  "get_metrics cb = (cb_failures cb, cb_threshold cb)"

section \<open>What the operations leave alone\<close>

lemma log_event_frame [simp]:
  "cb_failures (log_event t a b cb) = cb_failures cb"
  "cb_threshold (log_event t a b cb) = cb_threshold cb"
  "cb_timeout (log_event t a b cb) = cb_timeout cb"
  "cb_st (log_event t a b cb) = cb_st cb"
  "cb_last_failure (log_event t a b cb) = cb_last_failure cb"
  "cb_in_trial (log_event t a b cb) = cb_in_trial cb"
  "cb_name (log_event t a b cb) = cb_name cb"
  "cb_log_path (log_event t a b cb) = cb_log_path cb"
  "cb_log_writable (log_event t a b cb) = cb_log_writable cb"
  by (simp_all add: log_event_def)

lemma cb_admit_frame [simp]:
  "cb_threshold (fst (cb_admit t cb)) = cb_threshold cb"
  "cb_timeout (fst (cb_admit t cb)) = cb_timeout cb"
  "cb_last_failure (fst (cb_admit t cb)) = cb_last_failure cb"
  "cb_log_path (fst (cb_admit t cb)) = cb_log_path cb"
  "cb_log_writable (fst (cb_admit t cb)) = cb_log_writable cb"
  by (simp_all add: cb_admit_def Let_def)

lemma cb_complete_frame [simp]:
  "cb_threshold (cb_complete t err cb) = cb_threshold cb"
  "cb_timeout (cb_complete t err cb) = cb_timeout cb"
  "cb_log_path (cb_complete t err cb) = cb_log_path cb"
  "cb_log_writable (cb_complete t err cb) = cb_log_writable cb"
  by (simp_all add: cb_complete_def Let_def)

lemma cb_reset_frame [simp]:
  "cb_threshold (cb_reset t cb) = cb_threshold cb"
  "cb_timeout (cb_reset t cb) = cb_timeout cb"
  "cb_in_trial (cb_reset t cb) = cb_in_trial cb"
  "cb_st (cb_reset t cb) = StateClosed"
  "cb_failures (cb_reset t cb) = 0"
  by (simp_all add: cb_reset_def)

lemma cb_reset_config_frame [simp]:
  "cb_in_trial (cb_reset_config t n d cb) = cb_in_trial cb"
  "cb_st (cb_reset_config t n d cb) = StateClosed"
  "cb_failures (cb_reset_config t n d cb) = 0"
  "cb_threshold (cb_reset_config t n d cb) = n"
  "cb_timeout (cb_reset_config t n d cb) = d"
  by (simp_all add: cb_reset_config_def)

section \<open>Admission and completion by state\<close>

text \<open>Who is let through: closed always, open after the timeout, half-open one at a time.\<close>

lemma cb_admit_result:
  "snd (cb_admit t cb) =
     (case cb_st cb of
        StateClosed \<Rightarrow> None
      | StateOpen \<Rightarrow> if timeout_elapsed t cb
                     then (if cb_in_trial cb then Some TrialInProgress else None)
                     else Some CircuitOpen
      | StateHalfOpen \<Rightarrow> if cb_in_trial cb then Some TrialInProgress else None)"
  by (simp add: cb_admit_def Let_def split: cb_state.split)

lemma cb_admit_st:
  "cb_st (fst (cb_admit t cb)) =
     (if cb_st cb = StateOpen \<and> timeout_elapsed t cb then StateHalfOpen else cb_st cb)"
  by (simp add: cb_admit_def Let_def)

lemma cb_admit_failures:
  "cb_failures (fst (cb_admit t cb)) =
     (if cb_st cb = StateOpen \<and> timeout_elapsed t cb then 0 else cb_failures cb)"
  by (simp add: cb_admit_def Let_def)

lemma cb_admit_trial:
  "cb_in_trial (fst (cb_admit t cb)) =
     (cb_in_trial cb \<or> cb_st (fst (cb_admit t cb)) = StateHalfOpen)"
  by (cases "cb_st cb") (simp_all add: cb_admit_def Let_def)

lemma cb_admit_closed [simp]: "cb_st cb = StateClosed \<Longrightarrow> cb_admit t cb = (cb, None)"
  by (simp add: cb_admit_def)

lemma cb_admit_open [simp]:
  "cb_st cb = StateOpen \<Longrightarrow> \<not> timeout_elapsed t cb \<Longrightarrow> cb_admit t cb = (cb, Some CircuitOpen)"
  by (simp add: cb_admit_def)

lemma cb_admit_busy [simp]:
  "cb_st cb = StateHalfOpen \<Longrightarrow> cb_in_trial cb \<Longrightarrow> cb_admit t cb = (cb, Some TrialInProgress)"
  by (simp add: cb_admit_def)

text \<open>What a completion does to the state.\<close>

lemma cb_complete_success:
  "cb_st (cb_complete t None cb) = StateClosed"
  "cb_failures (cb_complete t None cb) = 0"
  by (simp_all add: cb_complete_def Let_def)

lemma cb_complete_failure:
  "cb_st (cb_complete t (Some e) cb) =
     (if cb_st cb = StateHalfOpen \<or> cb_threshold cb \<le> cb_failures cb + 1
      then StateOpen else cb_st cb)"
  "cb_failures (cb_complete t (Some e) cb) = cb_failures cb + 1"
  "cb_last_failure (cb_complete t (Some e) cb) = t"
  by (auto simp: cb_complete_def Let_def)

lemma cb_complete_trial:
  "cb_in_trial (cb_complete t err cb) = (cb_in_trial cb \<and> cb_st cb \<noteq> StateHalfOpen)"
  by (simp add: cb_complete_def Let_def)

lemma cb_complete_not_half_open:
  "cb_st (cb_complete t err cb) \<noteq> StateHalfOpen"
  by (cases err) (auto simp: cb_complete_success cb_complete_failure)

lemmas cb_transitions =
  cb_admit_result cb_admit_st cb_admit_failures cb_admit_trial
  cb_complete_success cb_complete_failure cb_complete_trial

section \<open>The interface of a guarded call\<close>

text \<open>
  What \<open>Broker.Push\<close> and \<open>Dispatcher.processMessage\<close> rely on: a call is either rejected
  with the breaker's own error, and then the action has not run, or it is the action, whose
  error comes back unchanged.
\<close>

definition cb_admits :: "time \<Rightarrow> circuit_breaker \<Rightarrow> bool" where
  "cb_admits t cb \<longleftrightarrow> snd (cb_admit t cb) = None"

locale guard =
  fixes exec :: "time \<Rightarrow> time \<Rightarrow> ('s \<Rightarrow> go_error option \<times> 's) \<Rightarrow> 'g \<Rightarrow> 's
                   \<Rightarrow> go_error option \<times> 'g \<times> 's"
    and admits :: "time \<Rightarrow> 'g \<Rightarrow> bool"
  assumes rejected: "\<not> admits t0 g \<Longrightarrow>
      \<exists>e g'. exec t0 t1 act g s = (Some e, g', s) \<and> e \<in> {CircuitOpen, TrialInProgress}"
    and admitted: "admits t0 g \<Longrightarrow>
      \<exists>g'. exec t0 t1 act g s = (fst (act s), g', snd (act s))"
begin

lemma exec_success:
  assumes "exec t0 t1 act g s = (None, g', s')"
  shows "admits t0 g \<and> act s = (None, s')"
  using assms rejected [of t0 g t1 act s] admitted [of t0 g t1 act s]
  by (cases "admits t0 g") (auto simp: prod_eq_iff)

lemma exec_cases:
  assumes "exec t0 t1 act g s = (r, g', s')"
  obtains (refused) "\<not> admits t0 g" "s' = s" "r = Some CircuitOpen \<or> r = Some TrialInProgress"
  | (ran) "admits t0 g" "act s = (r, s')"
  using assms rejected [of t0 g t1 act s] admitted [of t0 g t1 act s]
  by (cases "admits t0 g") (auto simp: prod_eq_iff)

lemma exec_invariant:
  assumes "exec t0 t1 act g s = (r, g', s')" and "P s" and "P (snd (act s))"
  shows "P s'"
  using assms(1) by (cases rule: exec_cases) (use assms in \<open>auto simp: prod_eq_iff\<close>)

end

lemma cb_execute_admitted:
  "cb_admits t0 cb \<Longrightarrow>
     cb_execute t0 t1 act cb s =
       (fst (act s), cb_complete t1 (fst (act s)) (fst (cb_admit t0 cb)), snd (act s))"
  by (auto simp: cb_execute_def cb_admits_def split: prod.splits)

lemma cb_execute_rejected:
  "snd (cb_admit t0 cb) = Some e \<Longrightarrow> cb_execute t0 t1 act cb s = (Some e, fst (cb_admit t0 cb), s)"
  by (auto simp: cb_execute_def split: prod.splits)

lemma cb_admit_errors: "snd (cb_admit t cb) = Some e \<Longrightarrow> e \<in> {CircuitOpen, TrialInProgress}"
  by (auto simp: cb_admit_result split: cb_state.splits if_splits)

interpretation breaker: guard cb_execute cb_admits
proof
  fix t0 t1 act cb and s :: 'a
  assume "\<not> cb_admits t0 cb"
  then obtain e where e: "snd (cb_admit t0 cb) = Some e" by (auto simp: cb_admits_def)
  show "\<exists>e g'. cb_execute t0 t1 act cb s = (Some e, g', s) \<and> e \<in> {CircuitOpen, TrialInProgress}"
    using cb_execute_rejected [OF e, of t1 act s] cb_admit_errors [OF e] by blast
next
  fix t0 t1 act cb and s :: 'a
  assume "cb_admits t0 cb"
  then show "\<exists>g'. cb_execute t0 t1 act cb s = (fst (act s), g', snd (act s))"
    by (simp add: cb_execute_admitted)
qed

end
