(* ===== verification/Broker.thy ===== *)
theory Broker
  imports Telemetry Channels Circuit_Breaker
begin

text \<open>
  \<open>pkg/broker/broker.go\<close>: the broker record and one definition per method.  A method takes
  the broker and the world (disk and metrics) and returns its result with both updated; the
  critical sections that other goroutines can interleave with (\<open>push_check\<close>,
  \<open>save_to_disk\<close>, \<open>push_commit\<close>; \<open>ack_memory\<close>, \<open>remove_from_disk\<close>; \<open>dlq_memory\<close>,
  \<open>dlq_files\<close>, \<open>dlq_count\<close>) are definitions of their own that the methods compose.
\<close>

section \<open>State\<close>

record pending =
  pm_message :: message
  pm_pop_time :: time

record broker =
  messages :: "message list"
  pending_acks :: "(string \<times> pending) list"
  storage_path :: string
  dead_letter_path :: string
  listeners :: "unit chan list"
  msg_listeners :: "message chan list"
  cb :: "circuit_breaker option"
  dlq_size :: int
  max_queue_size :: int
  ack_timeout :: int64

type_synonym bw = "broker \<times> world"

definition on_disk :: "(disk \<Rightarrow> 'r \<times> disk) \<Rightarrow> world \<Rightarrow> 'r \<times> world" where
  "on_disk f w = (case f (wdisk w) of (r, d) \<Rightarrow> (r, w\<lparr>wdisk := d\<rparr>))"

definition empty_broker :: "string \<Rightarrow> string \<Rightarrow> circuit_breaker option \<Rightarrow> broker" where
  "empty_broker storagePath deadLetterPath breaker =
     \<lparr>messages = [], pending_acks = [], storage_path = storagePath,
      dead_letter_path = deadLetterPath, listeners = [], msg_listeners = [], cb = breaker,
      dlq_size = 0, max_queue_size = 0, ack_timeout = 300000000000\<rparr>"

definition set_config :: "int \<Rightarrow> int64 \<Rightarrow> broker \<Rightarrow> broker" where
  "set_config maxQueueSize ackTimeoutSeconds b =
     (let b = b\<lparr>max_queue_size := maxQueueSize\<rparr>
      in if 0 < sint ackTimeoutSeconds then b\<lparr>ack_timeout := seconds ackTimeoutSeconds\<rparr> else b)"

definition set_storage_path :: "string \<Rightarrow> broker \<Rightarrow> broker" where
  "set_storage_path p b = b\<lparr>storage_path := p\<rparr>"

section \<open>Notifications\<close>

definition notify :: "broker \<Rightarrow> broker" where
  "notify b = b\<lparr>listeners := map (send_or_drop ()) (listeners b)\<rparr>"

definition broadcast :: "message \<Rightarrow> broker \<Rightarrow> broker" where
  "broadcast msg b = b\<lparr>msg_listeners := map (send_or_drop msg) (msg_listeners b)\<rparr>"

text \<open>A subscriber is known by the position of its channel.\<close>

definition subscribe :: "broker \<Rightarrow> nat \<times> broker" where
  "subscribe b = (length (listeners b), b\<lparr>listeners := listeners b @ [make_chan 1]\<rparr>)"

definition subscribe_messages :: "broker \<Rightarrow> nat \<times> broker" where
  "subscribe_messages b =
     (length (msg_listeners b), b\<lparr>msg_listeners := msg_listeners b @ [make_chan 100]\<rparr>)"

section \<open>Recovery\<close>

text \<open>The loop over the directory entries: unreadable and malformed files are skipped.\<close>

fun recover_files :: "string \<Rightarrow> disk \<Rightarrow> (string \<times> bool) list \<Rightarrow> message list" where
  "recover_files dir d [] = []"
| "recover_files dir d ((name, isdir) # es) =
     (if file_ext name = ''.json'' then
        (case os_read_file (join_path dir name) d of
           Inl e \<Rightarrow> recover_files dir d es
         | Inr data \<Rightarrow>
             (case unmarshal_message data of
                None \<Rightarrow> recover_files dir d es
              | Some msg \<Rightarrow> msg # recover_files dir d es))
      else recover_files dir d es)"

definition count_dlq :: "string \<Rightarrow> disk \<Rightarrow> nat" where
  "count_dlq dir d =
     (case os_read_dir dir d of
        Inl e \<Rightarrow> 0
      | Inr es \<Rightarrow> length (filter (\<lambda>(name, isdir). \<not> isdir \<and> file_ext name = ''.json'') es))"

definition recover :: "bw \<Rightarrow> bw" where
  "recover bw =
     (case bw of (b, w) \<Rightarrow>
       (case os_read_dir (storage_path b) (wdisk w) of
          Inl e \<Rightarrow> (b, w)
        | Inr es \<Rightarrow>
            let loaded = recover_files (storage_path b) (wdisk w) es;
                b = b\<lparr>messages := messages b @ loaded\<rparr>;
                w = set_queue_size (length loaded) w;
                b = b\<lparr>dlq_size := int (count_dlq (dead_letter_path b) (wdisk w))\<rparr>
            in (b, w)))"

definition new_broker :: "string \<Rightarrow> string \<Rightarrow> circuit_breaker option \<Rightarrow> world \<Rightarrow> bw" where
  "new_broker storagePath deadLetterPath breaker w =
     (let w = w\<lparr>wdisk := os_mkdir_all storagePath (wdisk w)\<rparr>;
          w = w\<lparr>wdisk := os_mkdir_all deadLetterPath (wdisk w)\<rparr>
      in recover (empty_broker storagePath deadLetterPath breaker, w))"

section \<open>Push\<close>

definition queue_full :: "broker \<Rightarrow> bool" where
  "queue_full b \<longleftrightarrow> 0 < max_queue_size b \<and> max_queue_size b \<le> int (length (messages b))"

definition push_check :: "broker \<Rightarrow> go_error option" where
  "push_check b = (if queue_full b then Some (QueueFull (max_queue_size b)) else None)"

text \<open>The second critical section and what follows it.\<close>

definition push_commit :: "message \<Rightarrow> bw \<Rightarrow> bw" where
  "push_commit msg bw =
     (case bw of (b, w) \<Rightarrow>
       let b = b\<lparr>messages := messages b @ [msg]\<rparr>;
           qSize = length (messages b);
           w = set_queue_size qSize (inc_pushed w)
       in (broadcast msg (notify b), w))"

definition do_push :: "message \<Rightarrow> bw \<Rightarrow> go_error option \<times> bw" where
  "do_push msg bw =
     (case bw of (b, w) \<Rightarrow>
       (case push_check b of
          Some e \<Rightarrow> (Some e, b, w)
        | None \<Rightarrow>
            (case on_disk (save_to_disk (storage_path b) msg) w of
               (Some e, w) \<Rightarrow> (Some (PersistFailed e), b, w)
             | (None, w) \<Rightarrow> (None, push_commit msg (b, w)))))"

definition push :: "time \<Rightarrow> time \<Rightarrow> message \<Rightarrow> bw \<Rightarrow> go_error option \<times> bw" where
  "push t0 t1 msg bw =
     (case cb (fst bw) of
        None \<Rightarrow> do_push msg bw
      | Some breaker \<Rightarrow>
          (case cb_execute t0 t1 (do_push msg) breaker bw of
             (err, breaker', b, w) \<Rightarrow> (err, b\<lparr>cb := Some breaker'\<rparr>, w)))"

section \<open>Pop and Peek\<close>

definition pop :: "time \<Rightarrow> bw \<Rightarrow> (go_error + message) \<times> bw" where
  "pop now bw =
     (case bw of (b, w) \<Rightarrow>
       (case messages b of
          [] \<Rightarrow> (Inl QueueEmpty, b, w)
        | msg # rest \<Rightarrow>
            let b = b\<lparr>messages := rest,
                     pending_acks := AList.update (msg_id msg)
                       \<lparr>pm_message = msg, pm_pop_time = now\<rparr> (pending_acks b)\<rparr>;
                w = set_queue_size (length rest) w
            in (Inr msg, notify b, w)))"

definition peek :: "broker \<Rightarrow> go_error + message" where
  "peek b = (case messages b of [] \<Rightarrow> Inl QueueEmpty | m # _ \<Rightarrow> Inr m)"

section \<open>Dead letters\<close>

definition find_message :: "string \<Rightarrow> message list \<Rightarrow> message option" where
  "find_message i ms = find (\<lambda>m. msg_id m = i) ms"

definition drop_id :: "string \<Rightarrow> message list \<Rightarrow> message list" where
  "drop_id i ms = filter (\<lambda>m. msg_id m \<noteq> i) ms"

text \<open>The first critical section of \<open>MoveToDLQ\<close>: every instance leaves the queue.\<close>

definition dlq_memory :: "string \<Rightarrow> bw \<Rightarrow> (go_error + message) \<times> bw" where
  "dlq_memory i bw =
     (case bw of (b, w) \<Rightarrow>
       (case find_message i (messages b) of
          None \<Rightarrow> (Inl (NotInMemory i), b, w)
        | Some msg \<Rightarrow>
            let b = b\<lparr>messages := drop_id i (messages b)\<rparr>;
                w = set_queue_size (length (messages b)) w
            in (Inr msg, notify b, w)))"

text \<open>
  The files: the latest version is written first (errors ignored), then renamed, or copied
  and removed when the rename fails.
\<close>

definition dlq_files :: "string \<Rightarrow> string \<Rightarrow> string \<Rightarrow> message \<Rightarrow> disk \<Rightarrow> go_error option \<times> disk" where
  "dlq_files storagePath deadLetterPath i msg d =
     (let oldPath = message_file storagePath i;
          newPath = message_file deadLetterPath i;
          d = snd (os_write_file oldPath (marshal_message msg) d)
      in case os_rename oldPath newPath d of
           (None, d) \<Rightarrow> (None, d)
         | (Some e, d) \<Rightarrow>
             (case os_read_file oldPath d of
                Inl e \<Rightarrow> (Some e, d)
              | Inr data \<Rightarrow>
                  (case os_write_file newPath data d of
                     (Some e, d) \<Rightarrow> (Some e, d)
                   | (None, d) \<Rightarrow> (None, snd (os_remove oldPath d)))))"

definition dlq_count :: "broker \<Rightarrow> broker" where
  "dlq_count b = b\<lparr>dlq_size := dlq_size b + 1\<rparr>"

definition move_to_dlq :: "string \<Rightarrow> bw \<Rightarrow> go_error option \<times> bw" where
  "move_to_dlq i bw =
     (case dlq_memory i bw of
        (Inl e, b, w) \<Rightarrow> (Some e, b, w)
      | (Inr msg, b, w) \<Rightarrow>
          (case on_disk (dlq_files (storage_path b) (dead_letter_path b) i msg) w of
             (Some e, w) \<Rightarrow> (Some e, b, w)
           | (None, w) \<Rightarrow> (None, dlq_count b, w)))"

section \<open>Acknowledgement\<close>

definition ack_memory :: "string \<Rightarrow> bw \<Rightarrow> go_error option \<times> bw" where
  "ack_memory i bw =
     (case bw of (b, w) \<Rightarrow>
       if map_of (pending_acks b) i = None \<and> find_message i (messages b) = None
       then (Some (NotPendingNorQueued i), b, w)
       else
         let b = (if map_of (pending_acks b) i = None
                  then b\<lparr>messages := drop_id i (messages b)\<rparr>
                  else b\<lparr>pending_acks := AList.delete i (pending_acks b)\<rparr>);
             w = set_queue_size (length (messages b)) w
         in (None, notify b, w))"

definition acknowledge :: "string \<Rightarrow> bw \<Rightarrow> go_error option \<times> bw" where
  "acknowledge i bw =
     (case ack_memory i bw of
        (Some e, b, w) \<Rightarrow> (Some e, b, w)
      | (None, b, w) \<Rightarrow>
          (case on_disk (remove_from_disk (storage_path b) i) w of (r, w) \<Rightarrow> (r, b, w)))"

definition negative_acknowledge :: "string \<Rightarrow> bw \<Rightarrow> go_error option \<times> bw" where
  "negative_acknowledge i bw =
     (case bw of (b, w) \<Rightarrow>
       (case map_of (pending_acks b) i of
          None \<Rightarrow> (Some (NotPending i), b, w)
        | Some p \<Rightarrow>
            let b = b\<lparr>pending_acks := AList.delete i (pending_acks b),
                     messages := pm_message p # messages b\<rparr>;
                w = set_queue_size (length (messages b)) w
            in (None, notify b, w)))"

text \<open>
  One tick of the timeout checker.  \<open>order\<close> is the order in which Go ranges over the map
  of pending messages.
\<close>

definition expired :: "time \<Rightarrow> broker \<Rightarrow> pending \<Rightarrow> bool" where
  "expired now b p \<longleftrightarrow> sint (ack_timeout b) < sint (time_sub now (pm_pop_time p))"

definition requeue_expired :: "time \<Rightarrow> string \<Rightarrow> broker \<Rightarrow> broker" where
  "requeue_expired now i b =
     (case map_of (pending_acks b) i of
        None \<Rightarrow> b
      | Some p \<Rightarrow>
          if expired now b p
          then b\<lparr>pending_acks := AList.delete i (pending_acks b),
                 messages := pm_message p # messages b\<rparr>
          else b)"

definition timeout_tick :: "time \<Rightarrow> string list \<Rightarrow> bw \<Rightarrow> bw" where
  "timeout_tick now order bw =
     (case bw of (b, w) \<Rightarrow>
       let b = fold (requeue_expired now) order b;
           w = set_queue_size (length (messages b)) w
       in (notify b, w))"

section \<open>Update, iteration, reports\<close>

fun replace_first :: "message \<Rightarrow> message list \<Rightarrow> message list" where
  "replace_first m [] = []"
| "replace_first m (x # xs) = (if msg_id x = msg_id m then m # xs else x # replace_first m xs)"

definition update_message :: "message \<Rightarrow> bw \<Rightarrow> go_error option \<times> bw" where
  "update_message msg bw =
     (case bw of (b, w) \<Rightarrow>
       if find_message (msg_id msg) (messages b) = None then (Some (NotInMemory (msg_id msg)), b, w)
       else
         let b = b\<lparr>messages := replace_first msg (messages b)\<rparr>
         in case on_disk (save_to_disk (storage_path b) msg) w of (r, w) \<Rightarrow> (r, b, w))"

text \<open>
  \<open>All\<close>: the length is read once, then each index is read under a lock of its own, from the
  queue as it is at that moment (\<open>q i\<close>).
\<close>

fun all_from :: "(nat \<Rightarrow> message list) \<Rightarrow> nat \<Rightarrow> nat \<Rightarrow> message list" where
  "all_from q i 0 = []"
| "all_from q i (Suc n) =
     (if length (q i) \<le> i then [] else q i ! i # all_from q (Suc i) n)"

definition all_messages :: "broker \<Rightarrow> (nat \<Rightarrow> message list) \<Rightarrow> message list" where
  "all_messages b q = all_from q 0 (length (messages b))"

definition get_stats :: "broker \<Rightarrow> int \<times> int" where
  "get_stats b = (int (length (messages b)), dlq_size b)"

definition get_cb_state :: "broker \<Rightarrow> string" where
  "get_cb_state b = (case cb b of None \<Rightarrow> ''N/A'' | Some c \<Rightarrow> get_state c)"

definition get_cb_metrics :: "broker \<Rightarrow> int \<times> int" where
  "get_cb_metrics b = (case cb b of None \<Rightarrow> (0, 0) | Some c \<Rightarrow> get_metrics c)"

definition broker_reset_config :: "time \<Rightarrow> int \<Rightarrow> int64 \<Rightarrow> broker \<Rightarrow> broker" where
  "broker_reset_config now threshold timeout b =
     b\<lparr>cb := map_option (cb_reset_config now threshold timeout) (cb b)\<rparr>"

definition broker_reset :: "time \<Rightarrow> broker \<Rightarrow> broker" where
  "broker_reset now b = b\<lparr>cb := map_option (cb_reset now) (cb b)\<rparr>"

end
