(* ===== verification/Broker_Facts.thy ===== *)
theory Broker_Facts
  imports Broker
begin

text \<open>
  What each method of the broker does, branch by branch: the fields it leaves alone, the
  well-formedness of the pending map and of the channels, and the functional behaviour that
  the theories above rest on.
\<close>

section \<open>What the operations leave alone\<close>

lemma notify_frame [simp]:
  "messages (notify b) = messages b" "pending_acks (notify b) = pending_acks b"
  "storage_path (notify b) = storage_path b" "dead_letter_path (notify b) = dead_letter_path b"
  "msg_listeners (notify b) = msg_listeners b" "cb (notify b) = cb b"
  "dlq_size (notify b) = dlq_size b" "max_queue_size (notify b) = max_queue_size b"
  "ack_timeout (notify b) = ack_timeout b"
  by (simp_all add: notify_def)

lemma broadcast_frame [simp]:
  "messages (broadcast m b) = messages b" "pending_acks (broadcast m b) = pending_acks b"
  "storage_path (broadcast m b) = storage_path b"
  "dead_letter_path (broadcast m b) = dead_letter_path b"
  "listeners (broadcast m b) = listeners b" "cb (broadcast m b) = cb b"
  "dlq_size (broadcast m b) = dlq_size b" "max_queue_size (broadcast m b) = max_queue_size b"
  "ack_timeout (broadcast m b) = ack_timeout b"
  by (simp_all add: broadcast_def)

lemma on_disk_eq: "on_disk f w = (fst (f (wdisk w)), w\<lparr>wdisk := snd (f (wdisk w))\<rparr>)"
  by (simp add: on_disk_def split: prod.split)

section \<open>Well-formed brokers\<close>

text \<open>
  The pending map has one entry per identifier, under the identifier of its message, and the
  channels respect their capacities (1 for state listeners, 100 for message listeners).
\<close>

definition pending_ok :: "broker \<Rightarrow> bool" where
  "pending_ok b \<longleftrightarrow> map_ok (pending_acks b) \<and>
     (\<forall>(i, p) \<in> set (pending_acks b). msg_id (pm_message p) = i)"

definition channels_ok :: "broker \<Rightarrow> bool" where
  "channels_ok b \<longleftrightarrow> (\<forall>c \<in> set (listeners b). chan_ok c \<and> chan_cap c = 1) \<and>
     (\<forall>c \<in> set (msg_listeners b). chan_ok c \<and> chan_cap c = 100)"

lemma pending_ok_notify [simp]: "pending_ok (notify b) = pending_ok b"
  by (simp add: pending_ok_def)

lemma pending_ok_broadcast [simp]: "pending_ok (broadcast m b) = pending_ok b"
  by (simp add: pending_ok_def)

lemma pending_okD: "pending_ok b \<Longrightarrow> map_of (pending_acks b) i = Some p \<Longrightarrow> msg_id (pm_message p) = i"
  by (auto simp: pending_ok_def dest: map_of_SomeD)

lemma set_update_map_ok:
  "map_ok m \<Longrightarrow> set (AList.update k v m) = insert (k, v) {kv \<in> set m. fst kv \<noteq> k}"
proof (induction m)
  case Nil
  then show ?case by simp
next
  case (Cons kv m)
  then show ?case by (cases kv) (auto simp: map_ok_def keys_def image_iff)
qed

lemma set_delete: "set (AList.delete k m) = {kv \<in> set m. fst kv \<noteq> k}"
  by (auto simp: AList.delete_eq)

lemma channels_ok_notify [simp]: "channels_ok b \<Longrightarrow> channels_ok (notify b)"
  by (auto simp: channels_ok_def notify_def)

lemma channels_ok_broadcast [simp]: "channels_ok b \<Longrightarrow> channels_ok (broadcast m b)"
  by (auto simp: channels_ok_def broadcast_def)

lemma channels_ok_frame [simp]:
  "channels_ok (b\<lparr>messages := ms\<rparr>) = channels_ok b"
  "channels_ok (b\<lparr>pending_acks := ps\<rparr>) = channels_ok b"
  "channels_ok (b\<lparr>cb := c\<rparr>) = channels_ok b"
  "channels_ok (b\<lparr>dlq_size := n\<rparr>) = channels_ok b"
  by (simp_all add: channels_ok_def)

section \<open>Queue helpers\<close>

lemma find_message_None [simp]: "find_message i ms = None \<longleftrightarrow> i \<notin> msg_id ` set ms"
  by (auto simp: find_message_def find_None_iff)

lemma find_message_Some: "find_message i ms = Some m \<Longrightarrow> m \<in> set ms \<and> msg_id m = i"
  by (auto simp: find_message_def find_Some_iff)

lemma set_drop_id [simp]: "set (drop_id i ms) = {m \<in> set ms. msg_id m \<noteq> i}"
  by (auto simp: drop_id_def)

lemma drop_id_fresh [simp]: "i \<notin> msg_id ` set ms \<Longrightarrow> drop_id i ms = ms"
  by (auto simp: drop_id_def intro!: filter_id)

lemma length_drop_id: "length (drop_id i ms) \<le> length ms"
  by (simp add: drop_id_def)

lemma map_id_replace_first [simp]: "map msg_id (replace_first m ms) = map msg_id ms"
  by (induction ms) auto

lemma length_replace_first [simp]: "length (replace_first m ms) = length ms"
  by (induction ms) auto

lemma set_replace_first: "set (replace_first m ms) \<subseteq> insert m (set ms)"
  by (induction ms) auto

lemma replace_first_distinct:
  "distinct (map msg_id ms) \<Longrightarrow>
   replace_first m ms = map (\<lambda>x. if msg_id x = msg_id m then m else x) ms"
proof (induction ms)
  case Nil
  then show ?case by simp
next
  case (Cons x ms)
  have "map (\<lambda>x. if msg_id x = msg_id m then m else x) ms = ms" if "msg_id x = msg_id m"
    using Cons.prems that by (intro map_idI) (auto simp: image_iff)
  with Cons show ?case by auto
qed

section \<open>Push\<close>

lemma push_commit_simps [simp]:
  "messages (fst (push_commit m (b, w))) = messages b @ [m]"
  "pending_acks (fst (push_commit m (b, w))) = pending_acks b"
  "storage_path (fst (push_commit m (b, w))) = storage_path b"
  "dead_letter_path (fst (push_commit m (b, w))) = dead_letter_path b"
  "max_queue_size (fst (push_commit m (b, w))) = max_queue_size b"
  "cb (fst (push_commit m (b, w))) = cb b"
  "dlq_size (fst (push_commit m (b, w))) = dlq_size b"
  "wdisk (snd (push_commit m (b, w))) = wdisk w"
  by (simp_all add: push_commit_def Let_def)

text \<open>The three outcomes of \<open>doPush\<close>.\<close>

lemma do_push_cases:
  assumes "do_push m (b, w) = (r, b', w')"
  obtains (full) "queue_full b" "r = Some (QueueFull (max_queue_size b))" "b' = b" "w' = w"
  | (unsaved) e d where "\<not> queue_full b"
      "save_to_disk (storage_path b) m (wdisk w) = (Some e, d)"
      "r = Some (PersistFailed e)" "b' = b" "w' = w\<lparr>wdisk := d\<rparr>"
  | (pushed) d where "\<not> queue_full b"
      "save_to_disk (storage_path b) m (wdisk w) = (None, d)"
      "r = None" "(b', w') = push_commit m (b, w\<lparr>wdisk := d\<rparr>)"
proof (cases "queue_full b")
  case True
  with assms show ?thesis by (intro full) (auto simp: do_push_def push_check_def)
next
  case False
  obtain r1 d where sv: "save_to_disk (storage_path b) m (wdisk w) = (r1, d)" by fastforce
  show ?thesis
  proof (cases r1)
    case None
    with assms False sv show ?thesis
      by (intro pushed) (auto simp: do_push_def push_check_def on_disk_eq)
  next
    case (Some e)
    with assms False sv show ?thesis
      by (intro unsaved) (auto simp: do_push_def push_check_def on_disk_eq)
  qed
qed

text \<open>
  \<open>Push\<close> is \<open>doPush\<close> behind the breaker: the guard's interface says it either leaves broker
  and world alone or does what \<open>doPush\<close> does.
\<close>

lemma push_cases:
  assumes "push t0 t1 m (b, w) = (r, b', w')"
  obtains (refused) c where "b' = b\<lparr>cb := Some c\<rparr>" "w' = w" "r = Some CircuitOpen \<or> r = Some TrialInProgress"
  | (ran) b1 where "do_push m (b, w) = (r, b1, w')" "b' = b1\<lparr>cb := cb b'\<rparr>"
proof (cases "cb b")
  case None
  with assms have "do_push m (b, w) = (r, b', w')" by (simp add: push_def)
  moreover have "b' = b'\<lparr>cb := cb b'\<rparr>" by simp
  ultimately show ?thesis by (rule ran)
next
  case (Some breaker)
  obtain r1 c s1 where ex: "cb_execute t0 t1 (do_push m) breaker (b, w) = (r1, c, s1)"
    by (metis prod_cases3)
  obtain b1 w1 where s1: "s1 = (b1, w1)" by (cases s1)
  have res: "r = r1" "b' = b1\<lparr>cb := Some c\<rparr>" "w' = w1"
    using assms Some ex s1 by (simp_all add: push_def)
  from ex show ?thesis
  proof (cases rule: breaker.exec_cases)
    case refused
    with res s1 show ?thesis by (intro that(1)) auto
  next
    case ran
    with res s1 show ?thesis by (intro that(2)) auto
  qed
qed

section \<open>Timeout sweep\<close>

definition is_expired :: "time \<Rightarrow> broker \<Rightarrow> string \<Rightarrow> bool" where
  "is_expired now b i \<longleftrightarrow>
     (case map_of (pending_acks b) i of None \<Rightarrow> False | Some p \<Rightarrow> expired now b p)"

definition pending_message :: "broker \<Rightarrow> string \<Rightarrow> message" where
  "pending_message b i = pm_message (the (map_of (pending_acks b) i))"

lemma requeue_expired_frame [simp]:
  "ack_timeout (requeue_expired now i b) = ack_timeout b"
  "storage_path (requeue_expired now i b) = storage_path b"
  "dead_letter_path (requeue_expired now i b) = dead_letter_path b"
  "cb (requeue_expired now i b) = cb b"
  "dlq_size (requeue_expired now i b) = dlq_size b"
  "max_queue_size (requeue_expired now i b) = max_queue_size b"
  "listeners (requeue_expired now i b) = listeners b"
  "msg_listeners (requeue_expired now i b) = msg_listeners b"
  by (simp_all add: requeue_expired_def split: option.split)

lemma fold_requeue_frame [simp]:
  "ack_timeout (fold (requeue_expired now) order b) = ack_timeout b"
  "storage_path (fold (requeue_expired now) order b) = storage_path b"
  "dead_letter_path (fold (requeue_expired now) order b) = dead_letter_path b"
  "cb (fold (requeue_expired now) order b) = cb b"
  "dlq_size (fold (requeue_expired now) order b) = dlq_size b"
  "max_queue_size (fold (requeue_expired now) order b) = max_queue_size b"
  "listeners (fold (requeue_expired now) order b) = listeners b"
  "msg_listeners (fold (requeue_expired now) order b) = msg_listeners b"
  by (induction order arbitrary: b; simp)+

lemma requeue_expired_eq:
  "messages (requeue_expired now i b) =
     (if is_expired now b i then pending_message b i # messages b else messages b)"
  "map_of (pending_acks (requeue_expired now i b)) j =
     (if is_expired now b i \<and> j = i then None else map_of (pending_acks b) j)"
  by (auto simp: requeue_expired_def is_expired_def pending_message_def split: option.split)

lemma expired_requeue [simp]: "expired now (requeue_expired now i b) p = expired now b p"
  by (simp add: expired_def)

lemma requeue_expired_other:
  "j \<noteq> i \<Longrightarrow> is_expired now (requeue_expired now i b) j = is_expired now b j"
  "j \<noteq> i \<Longrightarrow> pending_message (requeue_expired now i b) j = pending_message b j"
  by (simp_all add: is_expired_def pending_message_def requeue_expired_eq split: option.split)

text \<open>
  Whatever order the map is walked in, a sweep moves exactly the expired entries to the front
  of the queue, the last one visited first, and leaves the others where they are.
\<close>

lemma fold_requeue:
  assumes "distinct order"
  shows "messages (fold (requeue_expired now) order b) =
           rev (map (pending_message b) (filter (is_expired now b) order)) @ messages b \<and>
         (\<forall>j. map_of (pending_acks (fold (requeue_expired now) order b)) j =
           (if j \<in> set order \<and> is_expired now b j then None else map_of (pending_acks b) j))"
  using assms
proof (induction order arbitrary: b)
  case Nil
  then show ?case by simp
next
  case (Cons i order)
  let ?b = "requeue_expired now i b"
  have f: "filter (is_expired now ?b) order = filter (is_expired now b) order"
    and m: "map (pending_message ?b) (filter (is_expired now b) order) =
            map (pending_message b) (filter (is_expired now b) order)"
    using Cons.prems requeue_expired_other [of _ i now b] by (auto intro!: filter_cong) metis+
  have IH: "messages (fold (requeue_expired now) order ?b) =
        rev (map (pending_message ?b) (filter (is_expired now ?b) order)) @ messages ?b"
    "\<And>j. map_of (pending_acks (fold (requeue_expired now) order ?b)) j =
        (if j \<in> set order \<and> is_expired now ?b j then None else map_of (pending_acks ?b) j)"
    using Cons by simp_all
  have "map_of (pending_acks (fold (requeue_expired now) order ?b)) j =
      (if j \<in> set (i # order) \<and> is_expired now b j then None else map_of (pending_acks b) j)" for j
    using Cons.prems by (cases "j = i") (auto simp: IH(2) requeue_expired_eq requeue_expired_other)
  then show ?case using IH(1) by (simp add: f m requeue_expired_eq)
qed

lemma pending_ok_requeue: "pending_ok b \<Longrightarrow> pending_ok (requeue_expired now i b)"
  by (auto simp: pending_ok_def requeue_expired_def set_delete split: option.split)

lemma pending_ok_fold_requeue:
  "pending_ok b \<Longrightarrow> pending_ok (fold (requeue_expired now) order b)"
  by (induction order arbitrary: b) (simp_all add: pending_ok_requeue)

section \<open>Acknowledgement and dead letters\<close>

lemma ack_memory_cases:
  assumes "ack_memory i (b, w) = (r, b', w')"
  obtains (unknown) "map_of (pending_acks b) i = None" "i \<notin> msg_id ` set (messages b)"
      "r = Some (NotPendingNorQueued i)" "b' = b" "w' = w"
  | (queued) "map_of (pending_acks b) i = None" "i \<in> msg_id ` set (messages b)" "r = None"
      "b' = notify (b\<lparr>messages := drop_id i (messages b)\<rparr>)"
      "w' = set_queue_size (length (drop_id i (messages b))) w"
  | (pending) p where "map_of (pending_acks b) i = Some p" "r = None"
      "b' = notify (b\<lparr>pending_acks := AList.delete i (pending_acks b)\<rparr>)"
      "w' = set_queue_size (length (messages b)) w"
proof (cases "map_of (pending_acks b) i")
  case None
  show ?thesis
  proof (cases "i \<in> msg_id ` set (messages b)")
    case True
    with assms None show ?thesis by (intro queued) (auto simp: ack_memory_def)
  next
    case False
    with assms None show ?thesis by (intro unknown) (auto simp: ack_memory_def)
  qed
next
  case (Some p)
  with assms show ?thesis by (intro pending) (auto simp: ack_memory_def)
qed

lemma acknowledge_cases:
  assumes "acknowledge i (b, w) = (r, b', w')"
  obtains (unknown) "map_of (pending_acks b) i = None" "i \<notin> msg_id ` set (messages b)"
      "r = Some (NotPendingNorQueued i)" "b' = b" "w' = w"
  | (queued) "map_of (pending_acks b) i = None" "i \<in> msg_id ` set (messages b)"
      "b' = notify (b\<lparr>messages := drop_id i (messages b)\<rparr>)"
      "remove_from_disk (storage_path b) i (wdisk w) = (r, wdisk w')"
  | (pending) p where "map_of (pending_acks b) i = Some p"
      "b' = notify (b\<lparr>pending_acks := AList.delete i (pending_acks b)\<rparr>)"
      "remove_from_disk (storage_path b) i (wdisk w) = (r, wdisk w')"
proof -
  obtain r1 b1 w1 where mem: "ack_memory i (b, w) = (r1, b1, w1)" by (metis prod_cases3)
  from mem show ?thesis
  proof (cases rule: ack_memory_cases)
    case unknown
    with mem assms show ?thesis by (intro that(1)) (auto simp: acknowledge_def)
  next
    case queued
    with mem assms show ?thesis
      by (intro that(2)) (auto simp: acknowledge_def on_disk_eq split: prod.splits)
  next
    case (pending p)
    with mem assms show ?thesis
      by (intro that(3)) (auto simp: acknowledge_def on_disk_eq split: prod.splits)
  qed
qed

lemma dlq_memory_cases:
  assumes "dlq_memory i (b, w) = (r, b', w')"
  obtains (unknown) "i \<notin> msg_id ` set (messages b)" "r = Inl (NotInMemory i)" "b' = b" "w' = w"
  | (queued) m where "find_message i (messages b) = Some m" "r = Inr m"
      "b' = notify (b\<lparr>messages := drop_id i (messages b)\<rparr>)"
      "w' = set_queue_size (length (drop_id i (messages b))) w"
proof (cases "find_message i (messages b)")
  case None
  moreover from None have "i \<notin> msg_id ` set (messages b)" by simp
  ultimately show ?thesis
    using assms by (intro unknown) (auto simp: dlq_memory_def simp del: find_message_None)
next
  case (Some m)
  with assms show ?thesis by (intro queued) (auto simp: dlq_memory_def)
qed

lemma dlq_count_frame [simp]:
  "messages (dlq_count b) = messages b" "pending_acks (dlq_count b) = pending_acks b"
  "storage_path (dlq_count b) = storage_path b" "dlq_size (dlq_count b) = dlq_size b + 1"
  by (simp_all add: dlq_count_def)

lemma move_to_dlq_cases:
  assumes "move_to_dlq i (b, w) = (r, b', w')"
  obtains (unknown) "i \<notin> msg_id ` set (messages b)" "r = Some (NotInMemory i)" "b' = b" "w' = w"
  | (queued) m b1 where "find_message i (messages b) = Some m"
      "b1 = notify (b\<lparr>messages := drop_id i (messages b)\<rparr>)"
      "dlq_files (storage_path b) (dead_letter_path b) i m (wdisk w) = (r, wdisk w')"
      "b' = (if r = None then dlq_count b1 else b1)"
proof -
  obtain r1 b1 w1 where mem: "dlq_memory i (b, w) = (r1, b1, w1)" by (metis prod_cases3)
  from mem show ?thesis
  proof (cases rule: dlq_memory_cases)
    case unknown
    with mem assms show ?thesis by (intro that(1)) (auto simp: move_to_dlq_def)
  next
    case (queued m)
    obtain rf d where df:
      "dlq_files (storage_path b) (dead_letter_path b) i m (wdisk w) = (rf, d)" by fastforce
    with queued mem assms have "r = rf" "wdisk w' = d" "b' = (if r = None then dlq_count b1 else b1)"
      by (auto simp: move_to_dlq_def on_disk_eq split: option.splits)
    with queued df show ?thesis by (intro that(2)) auto
  qed
qed

lemma negative_acknowledge_cases:
  assumes "negative_acknowledge i (b, w) = (r, b', w')"
  obtains (unknown) "map_of (pending_acks b) i = None" "r = Some (NotPending i)" "b' = b" "w' = w"
  | (pending) p where "map_of (pending_acks b) i = Some p" "r = None"
      "b' = notify (b\<lparr>pending_acks := AList.delete i (pending_acks b),
                       messages := pm_message p # messages b\<rparr>)"
      "wdisk w' = wdisk w"
  using assms
  by (cases "map_of (pending_acks b) i") (auto simp: negative_acknowledge_def)

lemma pop_cases:
  assumes "pop now (b, w) = (r, b', w')"
  obtains (empty) "messages b = []" "r = Inl QueueEmpty" "b' = b" "w' = w"
  | (taken) m rest where "messages b = m # rest" "r = Inr m"
      "b' = notify (b\<lparr>messages := rest,
                       pending_acks := AList.update (msg_id m)
                         \<lparr>pm_message = m, pm_pop_time = now\<rparr> (pending_acks b)\<rparr>)"
      "w' = set_queue_size (length rest) w"
  using assms by (cases "messages b") (auto simp: pop_def)

lemma update_message_cases:
  assumes "update_message m (b, w) = (r, b', w')"
  obtains (unknown) "msg_id m \<notin> msg_id ` set (messages b)" "r = Some (NotInMemory (msg_id m))"
      "b' = b" "w' = w"
  | (found) "msg_id m \<in> msg_id ` set (messages b)"
      "b' = b\<lparr>messages := replace_first m (messages b)\<rparr>"
      "save_to_disk (storage_path b) m (wdisk w) = (r, wdisk w')"
proof (cases "msg_id m \<in> msg_id ` set (messages b)")
  case True
  with assms show ?thesis by (intro found) (auto simp: update_message_def on_disk_eq)
next
  case False
  with assms show ?thesis by (intro unknown) (auto simp: update_message_def)
qed

section \<open>Operations as data\<close>

text \<open>
  The calls clients, the dispatcher and the timeout checker make, as one type, so that runs
  of the broker are lists.  \<open>OpTick\<close> carries the order in which the pending map is walked.
\<close>

datatype broker_op =
    OpPush time time message
  | OpPop time
  | OpAck string
  | OpNack string
  | OpTick time "string list"
  | OpDlq string
  | OpUpdate message
  | OpConfig int int64
  | OpReset time
  | OpResetConfig time int int64
  | OpSubscribe
  | OpSubscribeMessages

datatype op_result = RDone | RErr "go_error option" | RMsg "go_error + message"

fun run_op :: "broker_op \<Rightarrow> bw \<Rightarrow> op_result \<times> bw" where
  "run_op (OpPush t0 t1 m) bw = apfst RErr (push t0 t1 m bw)"
| "run_op (OpPop t) bw = apfst RMsg (pop t bw)"
| "run_op (OpAck i) bw = apfst RErr (acknowledge i bw)"
| "run_op (OpNack i) bw = apfst RErr (negative_acknowledge i bw)"
| "run_op (OpTick t order) bw = (RDone, timeout_tick t order bw)"
| "run_op (OpDlq i) bw = apfst RErr (move_to_dlq i bw)"
| "run_op (OpUpdate m) bw = apfst RErr (update_message m bw)"
| "run_op (OpConfig n k) (b, w) = (RDone, set_config n k b, w)"
| "run_op (OpReset t) (b, w) = (RDone, broker_reset t b, w)"
| "run_op (OpResetConfig t n d) (b, w) = (RDone, broker_reset_config t n d b, w)"
| "run_op OpSubscribe (b, w) = (RDone, snd (subscribe b), w)"
| "run_op OpSubscribeMessages (b, w) = (RDone, snd (subscribe_messages b), w)"

fun run_ops :: "broker_op list \<Rightarrow> bw \<Rightarrow> op_result list \<times> bw" where
  "run_ops [] bw = ([], bw)"
| "run_ops (op # ops) bw =
     (case run_op op bw of (r, bw1) \<Rightarrow>
        (case run_ops ops bw1 of (rs, bw2) \<Rightarrow> (r # rs, bw2)))"

lemma run_op_Pair: "apfst f x = (r, b, w) \<longleftrightarrow> (\<exists>y. x = (y, b, w) \<and> r = f y)"
  by (cases x) auto

lemma set_config_frame [simp]:
  "messages (set_config n k b) = messages b" "pending_acks (set_config n k b) = pending_acks b"
  "storage_path (set_config n k b) = storage_path b"
  "dead_letter_path (set_config n k b) = dead_letter_path b"
  "listeners (set_config n k b) = listeners b" "msg_listeners (set_config n k b) = msg_listeners b"
  "max_queue_size (set_config n k b) = n"
  by (simp_all add: set_config_def Let_def)

lemma broker_reset_frame [simp]:
  "messages (broker_reset t b) = messages b" "pending_acks (broker_reset t b) = pending_acks b"
  "storage_path (broker_reset t b) = storage_path b" "listeners (broker_reset t b) = listeners b"
  "msg_listeners (broker_reset t b) = msg_listeners b"
  "max_queue_size (broker_reset t b) = max_queue_size b"
  "messages (broker_reset_config t n d b) = messages b"
  "pending_acks (broker_reset_config t n d b) = pending_acks b"
  "storage_path (broker_reset_config t n d b) = storage_path b"
  "listeners (broker_reset_config t n d b) = listeners b"
  "msg_listeners (broker_reset_config t n d b) = msg_listeners b"
  "max_queue_size (broker_reset_config t n d b) = max_queue_size b"
  by (simp_all add: broker_reset_def broker_reset_config_def)

lemma subscribe_frame [simp]:
  "messages (snd (subscribe b)) = messages b" "pending_acks (snd (subscribe b)) = pending_acks b"
  "storage_path (snd (subscribe b)) = storage_path b"
  "max_queue_size (snd (subscribe b)) = max_queue_size b"
  "messages (snd (subscribe_messages b)) = messages b"
  "pending_acks (snd (subscribe_messages b)) = pending_acks b"
  "storage_path (snd (subscribe_messages b)) = storage_path b"
  "max_queue_size (snd (subscribe_messages b)) = max_queue_size b"
  by (simp_all add: subscribe_def subscribe_messages_def)

lemma timeout_tick_eq:
  "timeout_tick now order (b, w) =
     (notify (fold (requeue_expired now) order b),
      set_queue_size (length (messages (fold (requeue_expired now) order b))) w)"
  by (simp add: timeout_tick_def Let_def)

text \<open>The message of a push is in the queue afterwards exactly when the push reports success.\<close>

lemma push_frame:
  assumes "push t0 t1 m (b, w) = (r, b', w')"
  shows "pending_acks b' = pending_acks b \<and> storage_path b' = storage_path b \<and>
    dead_letter_path b' = dead_letter_path b \<and> max_queue_size b' = max_queue_size b \<and>
    messages b' = (if r = None then messages b @ [m] else messages b)"
  using assms
proof (cases rule: push_cases)
  case (refused c)
  then show ?thesis by auto
next
  case (ran b1)
  from ran(1) have "pending_acks b1 = pending_acks b \<and> storage_path b1 = storage_path b \<and>
    dead_letter_path b1 = dead_letter_path b \<and> max_queue_size b1 = max_queue_size b \<and>
    messages b1 = (if r = None then messages b @ [m] else messages b)"
  proof (cases rule: do_push_cases)
    case (pushed d)
    then have "b1 = fst (push_commit m (b, w\<lparr>wdisk := d\<rparr>))" by (metis fst_conv)
    with pushed(3) show ?thesis by simp
  qed simp_all
  moreover have "pending_acks b' = pending_acks b1 \<and> storage_path b' = storage_path b1 \<and>
    dead_letter_path b' = dead_letter_path b1 \<and> max_queue_size b' = max_queue_size b1 \<and>
    messages b' = messages b1"
    by (subst (1 2 3 4 5) ran(2)) simp
  ultimately show ?thesis by simp
qed

section \<open>Example state\<close>

text \<open>A new broker on a calm disk, and messages to push: the states that examples start from.\<close>

definition demo_broker :: broker where
  "demo_broker = empty_broker ''./data/messages'' ''./data/dead_letter'' None"

definition demo_world :: world where
  "demo_world = \<lparr>wdisk = calm_disk, wmetrics = zero_metrics\<rparr>"

definition demo_message :: "string \<Rightarrow> message" where
  "demo_message i = zero_message\<lparr>msg_id := i, payload := VStr ''hi''\<rparr>"

lemma demo_message_simps [simp]: "msg_id (demo_message i) = i" "wf_message (demo_message i)"
  by (simp_all add: demo_message_def wf_message_def zero_message_def)

end
