(* ===== verification/Lease_Queue.thy ===== *)
theory Lease_Queue
  imports Broker_Facts
begin

text \<open>
  What the broker promises its clients, without disks, breakers, channels or clocks: a queue
  from which a consumer takes a message on lease and then settles it or gives it back.  The
  broker's methods are shown to be steps of this machine (\<open>broker_refines\<close>), so what holds
  of every run of the machine holds of the broker.
\<close>

section \<open>The abstract machine\<close>

record lease_queue =
  waiting :: "message list"
  leased :: "string \<Rightarrow> message option"

inductive lq_step :: "lease_queue \<Rightarrow> broker_op \<Rightarrow> op_result \<Rightarrow> lease_queue \<Rightarrow> bool" where
  enqueue: "lq_step q (OpPush t0 t1 m) (RErr None) (q\<lparr>waiting := waiting q @ [m]\<rparr>)"
| refuse: "lq_step q (OpPush t0 t1 m) (RErr (Some e)) q"
| lease: "waiting q = m # ms \<Longrightarrow>
    lq_step q (OpPop t) (RMsg (Inr m)) \<lparr>waiting = ms, leased = (leased q)(msg_id m := Some m)\<rparr>"
| empty: "waiting q = [] \<Longrightarrow> lq_step q (OpPop t) (RMsg (Inl QueueEmpty)) q"
| settle_leased: "leased q i \<noteq> None \<Longrightarrow>
    lq_step q (OpAck i) (RErr r) (q\<lparr>leased := (leased q)(i := None)\<rparr>)"
| settle_waiting: "leased q i = None \<Longrightarrow> i \<in> msg_id ` set (waiting q) \<Longrightarrow>
    lq_step q (OpAck i) (RErr r) (q\<lparr>waiting := drop_id i (waiting q)\<rparr>)"
| settle_unknown: "leased q i = None \<Longrightarrow> i \<notin> msg_id ` set (waiting q) \<Longrightarrow>
    lq_step q (OpAck i) (RErr (Some (NotPendingNorQueued i))) q"
| give_back: "leased q i = Some m \<Longrightarrow>
    lq_step q (OpNack i) (RErr None) \<lparr>waiting = m # waiting q, leased = (leased q)(i := None)\<rparr>"
| give_back_unknown: "leased q i = None \<Longrightarrow> lq_step q (OpNack i) (RErr (Some (NotPending i))) q"
| lapse: "distinct is \<Longrightarrow> (\<And>i. i \<in> set is \<Longrightarrow> leased q i = Some (f i)) \<Longrightarrow>
    lq_step q (OpTick t order) RDone
      \<lparr>waiting = rev (map f is) @ waiting q, leased = (\<lambda>i. if i \<in> set is then None else leased q i)\<rparr>"
| bury: "i \<in> msg_id ` set (waiting q) \<Longrightarrow>
    lq_step q (OpDlq i) (RErr r) (q\<lparr>waiting := drop_id i (waiting q)\<rparr>)"
| bury_unknown: "i \<notin> msg_id ` set (waiting q) \<Longrightarrow>
    lq_step q (OpDlq i) (RErr (Some (NotInMemory i))) q"
| revise: "msg_id m \<in> msg_id ` set (waiting q) \<Longrightarrow>
    lq_step q (OpUpdate m) (RErr r) (q\<lparr>waiting := replace_first m (waiting q)\<rparr>)"
| revise_unknown: "msg_id m \<notin> msg_id ` set (waiting q) \<Longrightarrow>
    lq_step q (OpUpdate m) (RErr (Some (NotInMemory (msg_id m)))) q"
| config: "lq_step q (OpConfig n k) RDone q"
| reset: "lq_step q (OpReset t) RDone q"
| reset_config: "lq_step q (OpResetConfig t n d) RDone q"
| subscribe: "lq_step q OpSubscribe RDone q"
| subscribe_messages: "lq_step q OpSubscribeMessages RDone q"

inductive_cases lq_stepE: "lq_step q op r q'"
inductive_cases lq_PushE: "lq_step q (OpPush t0 t1 m) r q'"
inductive_cases lq_PopE: "lq_step q (OpPop t) r q'"

section \<open>The broker implements it\<close>

definition abs_broker :: "broker \<Rightarrow> lease_queue" where
  "abs_broker b = \<lparr>waiting = messages b,
     leased = (\<lambda>i. map_option pm_message (map_of (pending_acks b) i))\<rparr>"

lemma abs_broker_simps [simp]:
  "waiting (abs_broker b) = messages b"
  "leased (abs_broker b) i = map_option pm_message (map_of (pending_acks b) i)"
  by (simp_all add: abs_broker_def)

lemma abs_broker_eqI:
  "messages b = waiting q \<Longrightarrow> (\<And>i. map_option pm_message (map_of (pending_acks b) i) = leased q i) \<Longrightarrow>
   abs_broker b = q"
  by (cases q) (auto simp: abs_broker_def)

lemma abs_broker_notify [simp]: "abs_broker (notify b) = abs_broker b"
  by (simp add: abs_broker_def)

text \<open>
  A rule of the machine, with the state after it stated as what the broker computed.
\<close>

lemma lq_step_to: "lq_step q op r q1 \<Longrightarrow> q1 = q' \<Longrightarrow> lq_step q op r q'"
  by simp

lemma refine_push:
  assumes "push t0 t1 m (b, w) = (r, b', w')"
  shows "lq_step (abs_broker b) (OpPush t0 t1 m) (RErr r) (abs_broker b')"
proof (cases r)
  case None
  then show ?thesis
    using push_frame [OF assms] lq_step.enqueue [of "abs_broker b" t0 t1 m]
    by (simp add: abs_broker_def)
next
  case (Some e)
  with push_frame [OF assms] have "abs_broker b' = abs_broker b" by (simp add: abs_broker_def)
  with Some show ?thesis by (simp add: lq_step.refuse)
qed

lemma refine_pop:
  assumes "pop t (b, w) = (r, b', w')"
  shows "lq_step (abs_broker b) (OpPop t) (RMsg r) (abs_broker b')"
  using assms
proof (cases rule: pop_cases)
  case empty
  then show ?thesis by (simp add: lq_step.empty)
next
  case (taken m rest)
  have "abs_broker b' = \<lparr>waiting = rest, leased = (leased (abs_broker b))(msg_id m := Some m)\<rparr>"
    using taken by (auto intro!: abs_broker_eqI)
  with lq_step.lease [of "abs_broker b" m rest t] taken show ?thesis by simp
qed

lemma refine_ack:
  assumes "acknowledge i (b, w) = (r, b', w')"
  shows "lq_step (abs_broker b) (OpAck i) (RErr r) (abs_broker b')"
  using assms
proof (cases rule: acknowledge_cases)
  case unknown
  then show ?thesis by (simp add: lq_step.settle_unknown)
next
  case queued
  have "abs_broker b' = (abs_broker b)\<lparr>waiting := drop_id i (waiting (abs_broker b))\<rparr>"
    using queued(3) by (auto intro!: abs_broker_eqI)
  with lq_step.settle_waiting [of "abs_broker b" i r] queued show ?thesis by simp
next
  case (pending p)
  have "abs_broker b' = (abs_broker b)\<lparr>leased := (leased (abs_broker b))(i := None)\<rparr>"
    using pending(2) by (auto intro!: abs_broker_eqI)
  with lq_step.settle_leased [of "abs_broker b" i r] pending show ?thesis by simp
qed

lemma refine_nack:
  assumes "negative_acknowledge i (b, w) = (r, b', w')"
  shows "lq_step (abs_broker b) (OpNack i) (RErr r) (abs_broker b')"
  using assms
proof (cases rule: negative_acknowledge_cases)
  case unknown
  then show ?thesis by (simp add: lq_step.give_back_unknown)
next
  case (pending p)
  have "abs_broker b' =
      \<lparr>waiting = pm_message p # waiting (abs_broker b), leased = (leased (abs_broker b))(i := None)\<rparr>"
    using pending(3) by (auto intro!: abs_broker_eqI)
  with lq_step.give_back [of "abs_broker b" i "pm_message p"] pending show ?thesis by simp
qed

lemma refine_tick:
  assumes "distinct order"
  shows "lq_step (abs_broker b) (OpTick t order) RDone (abs_broker (fst (timeout_tick t order (b, w))))"
proof -
  let ?is = "filter (is_expired t b) order"
  have leased: "leased (abs_broker b) i = Some (pending_message b i)" if "i \<in> set ?is" for i
    using that by (auto simp: is_expired_def pending_message_def split: option.splits)
  note fr = fold_requeue [OF assms, of t b]
  have "abs_broker (fold (requeue_expired t) order b) =
      \<lparr>waiting = rev (map (pending_message b) ?is) @ waiting (abs_broker b),
       leased = (\<lambda>i. if i \<in> set ?is then None else leased (abs_broker b) i)\<rparr>"
    using fr by (intro abs_broker_eqI) auto
  with lq_step.lapse [of ?is "abs_broker b" "pending_message b" t order] leased assms
  show ?thesis by (simp add: timeout_tick_eq)
qed

lemma refine_dlq:
  assumes "move_to_dlq i (b, w) = (r, b', w')"
  shows "lq_step (abs_broker b) (OpDlq i) (RErr r) (abs_broker b')"
  using assms
proof (cases rule: move_to_dlq_cases)
  case unknown
  then show ?thesis by (simp add: lq_step.bury_unknown)
next
  case (queued m b1)
  then have "i \<in> msg_id ` set (messages b)" using find_message_Some by fastforce
  moreover have "abs_broker b' = (abs_broker b)\<lparr>waiting := drop_id i (waiting (abs_broker b))\<rparr>"
    using queued by (auto intro!: abs_broker_eqI)
  ultimately show ?thesis using lq_step.bury [of i "abs_broker b" r] by simp
qed

lemma refine_update:
  assumes "update_message m (b, w) = (r, b', w')"
  shows "lq_step (abs_broker b) (OpUpdate m) (RErr r) (abs_broker b')"
  using assms
proof (cases rule: update_message_cases)
  case unknown
  then show ?thesis by (simp add: lq_step.revise_unknown)
next
  case found
  have "abs_broker b' = (abs_broker b)\<lparr>waiting := replace_first m (waiting (abs_broker b))\<rparr>"
    using found(2) by (auto intro!: abs_broker_eqI)
  with lq_step.revise [of m "abs_broker b" r] found show ?thesis by simp
qed

lemmas refine_ops = refine_push refine_pop refine_ack refine_nack refine_tick refine_dlq refine_update

text \<open>The map is walked in an order without repetitions.\<close>

fun op_walks :: "broker_op \<Rightarrow> bool" where
  "op_walks (OpTick t order) = distinct order"
| "op_walks _ = True"

lemma run_op_refines:
  assumes "run_op op (b, w) = (r, b', w')" "op_walks op"
  shows "lq_step (abs_broker b) op r (abs_broker b')"
proof (cases op)
  case (OpTick t order)
  with assms refine_tick [of order b t w] show ?thesis by simp
qed (use assms in \<open>auto simp: run_op_Pair abs_broker_def [of "set_config _ _ _"]
      abs_broker_def [of "broker_reset _ _"] abs_broker_def [of "broker_reset_config _ _ _ _"]
      abs_broker_def [of "snd (subscribe _)"] abs_broker_def [of "snd (subscribe_messages _)"]
      intro: refine_ops lq_step.intros simp flip: abs_broker_def\<close>)

section \<open>Runs\<close>

inductive lq_run :: "lease_queue \<Rightarrow> (broker_op \<times> op_result) list \<Rightarrow> lease_queue \<Rightarrow> bool" where
  none: "lq_run q [] q"
| step: "lq_step q op r q1 \<Longrightarrow> lq_run q1 evs q2 \<Longrightarrow> lq_run q ((op, r) # evs) q2"

inductive_cases lq_run_NilE [elim!]: "lq_run q [] q'"
inductive_cases lq_run_ConsE [elim!]: "lq_run q ((op, r) # evs) q'"

lemma run_ops_Cons:
  assumes "run_ops (op # ops) (b, w) = (rs, b', w')"
  obtains r rs1 b1 w1 where "rs = r # rs1" "run_op op (b, w) = (r, b1, w1)"
    "run_ops ops (b1, w1) = (rs1, b', w')"
  using assms by (auto split: prod.splits)

lemma run_ops_refines:
  "run_ops ops (b, w) = (rs, b', w') \<Longrightarrow> \<forall>op \<in> set ops. op_walks op \<Longrightarrow>
   lq_run (abs_broker b) (zip ops rs) (abs_broker b')"
proof (induction ops arbitrary: b w rs)
  case Nil
  then show ?case by (simp add: lq_run.none)
next
  case (Cons op ops)
  from Cons.prems(1) obtain r rs1 b1 w1 where step: "rs = r # rs1"
    "run_op op (b, w) = (r, b1, w1)" "run_ops ops (b1, w1) = (rs1, b', w')"
    by (rule run_ops_Cons)
  have "lq_step (abs_broker b) op r (abs_broker b1)"
    using run_op_refines [OF step(2)] Cons.prems(2) by simp
  moreover have "lq_run (abs_broker b1) (zip ops rs1) (abs_broker b')"
    using Cons.IH [OF step(3)] Cons.prems(2) by simp
  ultimately show ?case using step(1) by (simp add: lq_run.step)
qed

text \<open>What a run took in, gave out, and let go.\<close>

fun accepted :: "(broker_op \<times> op_result) list \<Rightarrow> message list" where
  "accepted [] = []"
| "accepted ((OpPush t0 t1 m, RErr None) # evs) = m # accepted evs"
| "accepted (_ # evs) = accepted evs"

fun delivered :: "(broker_op \<times> op_result) list \<Rightarrow> message list" where
  "delivered [] = []"
| "delivered ((OpPop t, RMsg (Inr m)) # evs) = m # delivered evs"
| "delivered (_ # evs) = delivered evs"

fun lets_go :: "string \<Rightarrow> broker_op \<Rightarrow> bool" where
  "lets_go i (OpAck j) = (j = i)"
| "lets_go i (OpDlq j) = (j = i)"
| "lets_go i _ = False"

definition lq_ids :: "lease_queue \<Rightarrow> string set" where
  "lq_ids q = msg_id ` set (waiting q) \<union> {i. leased q i \<noteq> None}"

definition held_ids :: "broker \<Rightarrow> string set" where
  "held_ids b = msg_id ` set (messages b) \<union> dom (map_of (pending_acks b))"

lemma lq_ids_abs: "lq_ids (abs_broker b) = held_ids b"
  by (auto simp: lq_ids_def held_ids_def dom_def)

text \<open>Leases are under the identifier of their message.\<close>

definition lq_ok :: "lease_queue \<Rightarrow> bool" where
  "lq_ok q \<longleftrightarrow> (\<forall>i m. leased q i = Some m \<longrightarrow> msg_id m = i)"

lemma lq_ok_abs: "pending_ok b \<Longrightarrow> lq_ok (abs_broker b)"
  by (auto simp: lq_ok_def dest: pending_okD)

lemma msg_id_replace_first [simp]: "msg_id ` set (replace_first m ms) = msg_id ` set ms"
  by (metis list.set_map map_id_replace_first)

lemma lq_step_ok: "lq_step q op r q' \<Longrightarrow> lq_ok q \<Longrightarrow> lq_ok q'"
  by (induction rule: lq_step.induct) (auto simp: lq_ok_def split: if_splits)

text \<open>One step: an identifier is dropped only when it is let go, and appears only by a push.\<close>

lemma lq_step_ids_keep:
  "lq_step q op r q' \<Longrightarrow> lq_ok q \<Longrightarrow> i \<in> lq_ids q \<Longrightarrow> \<not> lets_go i op \<Longrightarrow> i \<in> lq_ids q'"
proof (induction rule: lq_step.induct)
  case (lapse "is" q f t order)
  then show ?case by (force simp: lq_ids_def lq_ok_def image_iff)
qed (auto simp: lq_ids_def lq_ok_def)

lemma lq_step_ids_new:
  "lq_step q op r q' \<Longrightarrow> lq_ok q \<Longrightarrow> i \<in> lq_ids q' \<Longrightarrow>
   i \<in> lq_ids q \<union> msg_id ` set (accepted [(op, r)])"
proof (induction rule: lq_step.induct)
  case (lapse "is" q f t order)
  then show ?case by (force simp: lq_ids_def lq_ok_def split: if_splits)
qed (auto simp: lq_ids_def lq_ok_def split: if_splits)

lemma lq_step_ids_accept:
  "lq_step q op r q' \<Longrightarrow> i \<in> msg_id ` set (accepted [(op, r)]) \<Longrightarrow> i \<in> lq_ids q'"
  by (induction rule: lq_step.induct) (auto simp: lq_ids_def)

lemma accepted_Cons: "accepted ((op, r) # evs) = accepted [(op, r)] @ accepted evs"
  by (cases "[(op, r)]" rule: accepted.cases) simp_all

lemma lq_run_ids_keep:
  "lq_run q evs q' \<Longrightarrow> lq_ok q \<Longrightarrow> i \<in> lq_ids q \<union> msg_id ` set (accepted evs) \<Longrightarrow>
   \<forall>(op, r) \<in> set evs. \<not> lets_go i op \<Longrightarrow> i \<in> lq_ids q'"
proof (induction rule: lq_run.induct)
  case (none q)
  then show ?case by simp
next
  case (step q op r q1 evs q2)
  have "i \<in> lq_ids q1 \<union> msg_id ` set (accepted evs)"
    using step.prems lq_step_ids_keep [OF step.hyps(1)] lq_step_ids_accept [OF step.hyps(1)]
    by (subst (asm) accepted_Cons) auto
  with step lq_step_ok show ?case by auto
qed

lemma lq_run_ids_new:
  "lq_run q evs q' \<Longrightarrow> lq_ok q \<Longrightarrow> i \<in> lq_ids q' \<Longrightarrow> i \<in> lq_ids q \<union> msg_id ` set (accepted evs)"
proof (induction rule: lq_run.induct)
  case (none q)
  then show ?case by simp
next
  case (step q op r q1 evs q2)
  have "i \<in> lq_ids q1 \<union> msg_id ` set (accepted evs)"
    using step lq_step_ok by blast
  with lq_step_ids_new [OF step.hyps(1) step.prems(1)] show ?case
    by (subst accepted_Cons) auto
qed

section \<open>First in, first out\<close>

fun push_or_pop :: "broker_op \<Rightarrow> bool" where
  "push_or_pop (OpPush t0 t1 m) = True"
| "push_or_pop (OpPop t) = True"
| "push_or_pop _ = False"

lemma delivered_Cons: "delivered ((op, r) # evs) = delivered [(op, r)] @ delivered evs"
  by (cases "[(op, r)]" rule: delivered.cases) simp_all

lemma lq_step_fifo:
  "lq_step q op r q' \<Longrightarrow> push_or_pop op \<Longrightarrow>
   delivered [(op, r)] @ waiting q' = waiting q @ accepted [(op, r)]"
  by (induction rule: lq_step.induct) auto

lemma lq_run_fifo:
  "lq_run q evs q' \<Longrightarrow> \<forall>(op, r) \<in> set evs. push_or_pop op \<Longrightarrow>
   delivered evs @ waiting q' = waiting q @ accepted evs"
proof (induction rule: lq_run.induct)
  case (none q)
  then show ?case by simp
next
  case (step q op r q1 evs q2)
  have "delivered evs @ waiting q2 = waiting q1 @ accepted evs" using step by simp
  moreover have "delivered [(op, r)] @ waiting q1 = waiting q @ accepted [(op, r)]"
    using step lq_step_fifo by simp
  ultimately show ?case by (subst delivered_Cons, subst accepted_Cons) (metis append.assoc)
qed

section \<open>Properties\<close>

text \<open>
  C1: the broker refines the lease queue.  Every sequence of calls (pushes, pops,
  acknowledgements, negative acknowledgements, timeout ticks, dead-lettering, updates,
  configuration, subscriptions), with the results the broker gave, is a run of the abstract
  machine from the abstraction of the first broker state to that of the last, whatever the
  disk and the breaker did.
\<close>

theorem broker_refines:
  assumes "run_ops ops (b, w) = (rs, b', w')" "\<forall>op \<in> set ops. op_walks op"
  shows "lq_run (abs_broker b) (zip ops rs) (abs_broker b')"
  using assms by (rule run_ops_refines)

definition demo_ops :: "broker_op list" where
  "demo_ops = [OpPush 1 2 (demo_message ''a''), OpPush 3 4 (demo_message ''b''), OpPop 5,
     OpPop 6, OpPush 7 8 (demo_message ''c''), OpPop 9, OpPop 10]"

definition lease_ops :: "broker_op list" where
  "lease_ops = [OpPush 1 2 (demo_message ''a''), OpPush 3 4 (demo_message ''b''), OpPop 5,
     OpNack ''a'', OpPop 6, OpTick 900000000000 [''a''], OpAck ''a'']"

lemma broker_refines_witness:
  "\<exists>rs q. lq_run (abs_broker demo_broker) (zip lease_ops rs) q \<and> map msg_id (waiting q) = [''b'']"
proof -
  obtain rs b' w' where run: "run_ops lease_ops (demo_broker, demo_world) = (rs, b', w')"
    by (metis prod_cases3)
  have "map msg_id (messages (fst (snd (run_ops lease_ops (demo_broker, demo_world))))) = [''b'']"
    by code_simp
  moreover have "\<forall>op \<in> set lease_ops. op_walks op" by (simp add: lease_ops_def)
  ultimately show ?thesis using broker_refines [OF run] run by fastforce
qed

text \<open>
  C8: first in, first out.  Over any calls that only push and pop, the messages popped
  followed by those still queued are the messages queued at the start followed by those the
  pushes accepted, in order: nothing is reordered, duplicated or dropped, and rejected pushes
  leave no trace.
\<close>

theorem fifo_order:
  assumes "run_ops ops (b, w) = (rs, b', w')" "\<forall>op \<in> set ops. push_or_pop op"
  shows "delivered (zip ops rs) @ messages b' = messages b @ accepted (zip ops rs)"
proof -
  have "\<forall>op \<in> set ops. op_walks op"
  proof
    fix op assume "op \<in> set ops"
    with assms(2) show "op_walks op" by (cases op) auto
  qed
  then have "lq_run (abs_broker b) (zip ops rs) (abs_broker b')"
    using run_ops_refines [OF assms(1)] by simp
  moreover have "\<forall>(op, r) \<in> set (zip ops rs). push_or_pop op"
    using assms(2) by (auto dest: set_zip_leftD)
  ultimately show ?thesis using lq_run_fifo by fastforce
qed

lemma fifo_order_witness:
  "map msg_id (delivered (zip demo_ops (fst (run_ops demo_ops (demo_broker, demo_world))))) =
     [''a'', ''b'', ''c'']"
proof -
  obtain rs b' w' where run: "run_ops demo_ops (demo_broker, demo_world) = (rs, b', w')"
    by (metis prod_cases3)
  have "messages (fst (snd (run_ops demo_ops (demo_broker, demo_world)))) = []"
    "accepted (zip demo_ops (fst (run_ops demo_ops (demo_broker, demo_world)))) =
       map demo_message [''a'', ''b'', ''c'']"
    by code_simp+
  moreover have "\<forall>op \<in> set demo_ops. push_or_pop op" by (simp add: demo_ops_def)
  moreover have "messages demo_broker = []" by (simp add: demo_broker_def empty_broker_def)
  ultimately show ?thesis using fifo_order [OF run] run by simp
qed



end
