(* ===== verification/Durability.thy ===== *)
theory Durability
  imports Lease_Queue
begin

text \<open>
  The queue and its files: while identifiers are plain and not reused, every message the
  broker answers for (queued or leased out) has a file that reads back as that message, so a
  broker started on the same disk after a crash at any point gets all of them again.
\<close>

section \<open>The invariant\<close>

definition held :: "broker \<Rightarrow> message set" where
  "held b = set (messages b) \<union> (pm_message ` snd ` set (pending_acks b))"

definition durable :: "broker \<Rightarrow> disk \<Rightarrow> bool" where
  "durable b d \<longleftrightarrow> pending_ok b \<and> distinct (map msg_id (messages b)) \<and>
     (\<forall>i \<in> msg_id ` set (messages b). map_of (pending_acks b) i = None) \<and>
     store.keeps (storage_path b) d (held b)"

text \<open>
  What the clients must do for it: push well-formed messages with plain identifiers, and
  update messages only where the disk can take the new version.
\<close>

definition write_ok :: "disk \<Rightarrow> string \<Rightarrow> bool" where
  "write_ok d p \<longleftrightarrow> can_create d p \<and> io_ok d (OpWrite p) \<and> torn d p = None"

fun op_durable :: "string \<Rightarrow> disk \<Rightarrow> broker_op \<Rightarrow> bool" where
  "op_durable dir d (OpPush t0 t1 m) \<longleftrightarrow> wf_message m \<and> plain_id (msg_id m)"
| "op_durable dir d (OpUpdate m) \<longleftrightarrow> wf_message m \<and> write_ok d (message_file dir (msg_id m))"
| "op_durable dir d (OpTick t order) \<longleftrightarrow> distinct order"
| "op_durable dir d _ \<longleftrightarrow> True"

fun push_ids :: "broker_op list \<Rightarrow> string list" where
  "push_ids [] = []"
| "push_ids (OpPush t0 t1 m # ops) = msg_id m # push_ids ops"
| "push_ids (_ # ops) = push_ids ops"

lemma push_ids_Cons: "push_ids (op # ops) = push_ids [op] @ push_ids ops"
  by (cases op) simp_all

lemma held_notify [simp]: "held (notify b) = held b"
  by (simp add: held_def)

lemma durable_notify [simp]: "durable (notify b) d = durable b d"
  by (simp add: durable_def)

lemma held_ids_held: "pending_ok b \<Longrightarrow> held_ids b = msg_id ` held b"
proof -
  assume ok: "pending_ok b"
  have "dom (map_of (pending_acks b)) = msg_id ` pm_message ` snd ` set (pending_acks b)"
    using ok by (force simp: pending_ok_def dom_map_of_conv_image_fst image_iff)
  then show ?thesis unfolding held_ids_def held_def by (simp add: image_Un)
qed

lemma held_iff:
  "pending_ok b \<Longrightarrow> x \<in> held b \<longleftrightarrow>
   x \<in> set (messages b) \<or> (\<exists>p. map_of (pending_acks b) (msg_id x) = Some p \<and> pm_message p = x)"
proof -
  assume ok: "pending_ok b"
  have "snd ` set (pending_acks b) = ran (map_of (pending_acks b))"
    using ok ran_distinct [of "pending_acks b"] by (simp add: pending_ok_def map_ok_def keys_def)
  then have "x \<in> held b \<longleftrightarrow> x \<in> set (messages b) \<or> x \<in> pm_message ` ran (map_of (pending_acks b))"
    by (simp add: held_def)
  then show ?thesis by (auto simp: ran_def dest: pending_okD [OF ok])
qed

lemma durable_plain: "durable b d \<Longrightarrow> i \<in> held_ids b \<Longrightarrow> plain_id i"
  by (auto simp: durable_def held_ids_held store.keeps_def)

lemma durable_stored: "durable b d \<Longrightarrow> m \<in> held b \<Longrightarrow> stored (storage_path b) d (msg_id m) = Some m"
  by (auto simp: durable_def store.keeps_def)

lemma same_system_write_ok: "same_system d d' \<Longrightarrow> write_ok d' p = write_ok d p"
  by (simp add: same_system_def write_ok_def can_create_def is_dir_def)

lemma same_system_op_durable: "same_system d d' \<Longrightarrow> op_durable dir d' op = op_durable dir d op"
  by (cases op) (simp_all add: same_system_write_ok)

text \<open>Moving messages between the queue and the pending map keeps the invariant.\<close>

lemma durable_same_held:
  assumes "durable b d" "pending_ok b'" "distinct (map msg_id (messages b'))"
    "\<forall>i \<in> msg_id ` set (messages b'). map_of (pending_acks b') i = None"
    "held b' \<subseteq> held b" "storage_path b' = storage_path b"
  shows "durable b' d"
  using assms by (auto simp: durable_def intro: store.keeps_subset)

section \<open>Every operation keeps it\<close>

lemma durable_pop:
  assumes "pop t (b, w) = (r, b', w')" "durable b (wdisk w)"
  shows "durable b' (wdisk w')"
  using assms(1)
proof (cases rule: pop_cases)
  case (taken m rest)
  have "durable b' (wdisk w)"
  proof (rule durable_same_held [OF assms(2)])
    show "pending_ok b'" using assms(2) taken
      by (auto simp: durable_def pending_ok_def set_update_map_ok)
    show "held b' \<subseteq> held b" using assms(2) taken
      by (auto simp: durable_def pending_ok_def held_def set_update_map_ok)
    show "\<forall>i \<in> msg_id ` set (messages b'). map_of (pending_acks b') i = None"
      using assms(2) taken by (auto simp: durable_def image_iff)
  qed (use assms(2) taken in \<open>auto simp: durable_def\<close>)
  with taken show ?thesis by (simp add: set_queue_size_def)
qed (use assms in simp)

lemma durable_nack:
  assumes "negative_acknowledge i (b, w) = (r, b', w')" "durable b (wdisk w)"
  shows "durable b' (wdisk w')"
  using assms(1)
proof (cases rule: negative_acknowledge_cases)
  case (pending p)
  have id: "msg_id (pm_message p) = i"
    using assms(2) pending pending_okD by (auto simp: durable_def)
  have "durable b' (wdisk w)"
  proof (rule durable_same_held [OF assms(2)])
    show "pending_ok b'" using assms(2) pending by (auto simp: durable_def pending_ok_def set_delete)
    show "held b' \<subseteq> held b" using assms(2) pending
      by (force simp: held_def set_delete dest: map_of_SomeD)
  qed (use assms(2) pending id in \<open>auto simp: durable_def\<close>)
  with pending show ?thesis by simp
qed (use assms in simp)

lemma durable_requeue:
  assumes "durable b d"
  shows "durable (requeue_expired t i b) d"
proof (cases "is_expired t b i")
  case True
  then obtain p where p: "map_of (pending_acks b) i = Some p" "expired t b p"
    by (auto simp: is_expired_def split: option.splits)
  have id: "msg_id (pm_message p) = i" using assms p pending_okD by (auto simp: durable_def)
  have e: "requeue_expired t i b =
      b\<lparr>pending_acks := AList.delete i (pending_acks b), messages := pm_message p # messages b\<rparr>"
    using p by (simp add: requeue_expired_def)
  show ?thesis
  proof (rule durable_same_held [OF assms])
    show "held (requeue_expired t i b) \<subseteq> held b"
      using p by (force simp: e held_def set_delete dest: map_of_SomeD)
  qed (use assms p id in \<open>auto simp: e durable_def pending_ok_def set_delete\<close>)
next
  case False
  then have "requeue_expired t i b = b"
    by (auto simp: is_expired_def requeue_expired_def split: option.splits)
  with assms show ?thesis by simp
qed

lemma durable_tick:
  assumes "durable b (wdisk w)"
  shows "durable (fst (timeout_tick t order (b, w))) (wdisk (snd (timeout_tick t order (b, w))))"
proof -
  have "durable (fold (requeue_expired t) order b) (wdisk w)"
    using assms by (induction order arbitrary: b) (simp_all add: durable_requeue)
  then show ?thesis by (simp add: timeout_tick_eq set_queue_size_def)
qed

lemma durable_push:
  assumes "push t0 t1 m (b, w) = (r, b', w')" "durable b (wdisk w)" "wf_message m"
    "plain_id (msg_id m)" "msg_id m \<notin> held_ids b"
  shows "durable b' (wdisk w')"
proof -
  have ids: "msg_id m \<notin> msg_id ` held b" "msg_id m \<notin> msg_id ` set (messages b)"
      "map_of (pending_acks b) (msg_id m) = None"
    using assms(2,5) held_ids_held [of b] by (auto simp: durable_def held_ids_def)
  note frame = push_frame [OF assms(1)]
  show ?thesis using assms(1)
  proof (cases rule: push_cases)
    case (refused c)
    then show ?thesis using assms(2) by (auto simp: durable_def held_def pending_ok_def)
  next
    case (ran b1)
    have keep: "store.keeps (storage_path b) (wdisk w') (held b') "
      using ran(1)
    proof (cases rule: do_push_cases)
      case full
      with frame assms(2) show ?thesis by (auto simp: durable_def held_def)
    next
      case (unsaved e d)
      with frame assms(2) store.keeps_other [OF unsaved(2) assms(4) _ ids(1)] show ?thesis
        by (auto simp: durable_def held_def)
    next
      case (pushed d)
      then have "wdisk w' = d" by (metis push_commit_simps(8) snd_conv world.select_convs(1)
            world.surjective world.update_convs(1))
      moreover have "held b' = insert m (held b)" using frame pushed by (auto simp: held_def)
      ultimately show ?thesis
        using store.keeps_save [OF pushed(2) assms(3,4) _ ids(1)] assms(2) by (simp add: durable_def)
    qed
    then show ?thesis using frame ids assms(2) by (auto simp: durable_def pending_ok_def image_iff)
  qed
qed

lemma durable_ack:
  assumes "acknowledge i (b, w) = (r, b', w')" "durable b (wdisk w)"
  shows "durable b' (wdisk w')"
  using assms(1)
proof (cases rule: acknowledge_cases)
  case unknown
  with assms show ?thesis by simp
next
  case queued
  have "i \<in> held_ids b" using queued by (auto simp: held_ids_def)
  then have "plain_id i" using assms(2) by (rule durable_plain [rotated])
  moreover have "held b' \<subseteq> held b" "i \<notin> msg_id ` held b'"
    using queued assms(2) by (auto simp: held_def durable_def pending_ok_def map_ok_mem)
  ultimately have "store.keeps (storage_path b) (wdisk w') (held b')"
    using store.keeps_remove [OF queued(4)] assms(2) store.keeps_subset
    by (auto simp: durable_def)
  then show ?thesis using assms(2) queued
    by (auto simp: durable_def pending_ok_def drop_id_def distinct_map_filter)
next
  case (pending p)
  have "i \<in> held_ids b" using pending by (auto simp: held_ids_def)
  then have "plain_id i" using assms(2) by (rule durable_plain [rotated])
  moreover have "held b' \<subseteq> held b" "i \<notin> msg_id ` held b'"
    using pending assms(2) by (auto simp: held_def durable_def pending_ok_def map_ok_mem set_delete)
  ultimately have "store.keeps (storage_path b) (wdisk w') (held b')"
    using store.keeps_remove [OF pending(3)] assms(2) store.keeps_subset
    by (auto simp: durable_def)
  then show ?thesis using assms(2) pending
    by (auto simp: durable_def pending_ok_def set_delete)
qed

lemma dlq_files_other:
  assumes "dlq_files st dl i m d = (r, d')" "p \<noteq> message_file st i" "p \<noteq> message_file dl i"
  shows "file_at d' p = file_at d p"
proof -
  obtain r1 d1 where wr: "os_write_file (message_file st i) (marshal_message m) d = (r1, d1)"
    by fastforce
  then have 1: "file_at d1 p = file_at d p" using assms(2) by (rule os_write_file_other)
  have 2: "file_at d2 p = file_at d1 p"
    if "os_rename (message_file st i) (message_file dl i) d1 = (r2, d2)" for r2 d2
    using that assms(2,3) by (auto simp: os_rename_def split: option.splits if_splits)
  have 3: "file_at d3 p = file_at d2 p" if "os_write_file (message_file dl i) x d2 = (r3, d3)" for r3 d2 d3 x
    using that assms(3) by (rule os_write_file_other)
  have 4: "file_at (snd (os_remove (message_file st i) d3)) p = file_at d3 p" for d3
    using assms(2) by (simp add: os_remove_def)
  show ?thesis using assms(1) wr 1
    by (auto simp: dlq_files_def Let_def 4 split: prod.splits option.splits sum.splits dest!: 2 3)
qed

lemma durable_dlq:
  assumes "move_to_dlq i (b, w) = (r, b', w')" "durable b (wdisk w)"
  shows "durable b' (wdisk w')"
  using assms(1)
proof (cases rule: move_to_dlq_cases)
  case unknown
  with assms show ?thesis by simp
next
  case (queued m b1)
  have mi: "m \<in> set (messages b)" "msg_id m = i" using find_message_Some [OF queued(1)] by auto
  then have i: "i \<in> held_ids b" by (auto simp: held_ids_def)
  have plain: "plain_id i" using assms(2) i by (rule durable_plain)
  have b1: "messages b' = drop_id i (messages b)" "pending_acks b' = pending_acks b"
      "storage_path b' = storage_path b" using queued(2,4) by auto
  have h: "held b' \<subseteq> held b" "i \<notin> msg_id ` held b'"
    using mi assms(2) held_iff [of b] held_iff [of b']
    by (auto simp: b1 durable_def pending_ok_def)
  have "store.keeps (storage_path b) (wdisk w') (held b')"
    unfolding store.keeps_def
  proof
    fix x assume x: "x \<in> held b'"
    then have s: "plain_id (msg_id x)" "stored (storage_path b) (wdisk w) (msg_id x) = Some x"
      and ne: "msg_id x \<noteq> i" using h assms(2) by (auto simp: durable_def store.keeps_def)
    then have "file_at (wdisk w') (message_file (storage_path b) (msg_id x)) =
        file_at (wdisk w) (message_file (storage_path b) (msg_id x))"
      using message_file_base [OF s(1) plain] by (intro dlq_files_other [OF queued(3)]) auto
    with s show "plain_id (msg_id x) \<and> stored (storage_path b) (wdisk w') (msg_id x) = Some x"
      by (simp add: stored_def)
  qed
  then show ?thesis using assms(2)
    by (auto simp: durable_def pending_ok_def b1 drop_id_def distinct_map_filter)
qed

lemma durable_update:
  assumes "update_message m (b, w) = (r, b', w')" "durable b (wdisk w)" "wf_message m"
    "write_ok (wdisk w) (message_file (storage_path b) (msg_id m))"
  shows "durable b' (wdisk w')"
  using assms(1)
proof (cases rule: update_message_cases)
  case unknown
  with assms show ?thesis by simp
next
  case found
  have plain: "plain_id (msg_id m)"
    using assms(2) found by (intro durable_plain) (auto simp: held_ids_def)
  have saved: "save_to_disk (storage_path b) m (wdisk w) = (None, wdisk w')"
    using assms(4) found(3) by (simp add: save_to_disk_def write_ok_def os_write_file_def)
  let ?rest = "{x \<in> held b. msg_id x \<noteq> msg_id m}"
  have "store.keeps (storage_path b) (wdisk w') (insert m ?rest)"
    by (rule store.keeps_save [OF saved assms(3) plain])
      (use assms(2) in \<open>auto simp: durable_def intro: store.keeps_subset\<close>)
  moreover have "held b' \<subseteq> insert m ?rest"
  proof
    fix x assume "x \<in> held b'"
    then have "x \<in> held b \<and> msg_id x \<noteq> msg_id m \<or> x = m"
      using found assms(2) held_iff [of b] held_iff [of b']
      by (auto simp: durable_def pending_ok_def replace_first_distinct image_iff split: if_splits)
    then show "x \<in> insert m ?rest" by auto
  qed
  ultimately have "store.keeps (storage_path b') (wdisk w') (held b')"
    using found(2) by (auto intro: store.keeps_subset)
  moreover have "distinct (map msg_id (messages b'))" "pending_ok b'"
    "msg_id ` set (messages b') = msg_id ` set (messages b)"
    using assms(2) found(2) arg_cong [OF map_id_replace_first [of m "messages b"], of set]
    by (auto simp: durable_def pending_ok_def)
  ultimately show ?thesis using assms(2) found(2) by (simp add: durable_def)
qed

section \<open>Runs\<close>

lemma push_same_system:
  assumes "push t0 t1 m (b, w) = (r, b', w')"
  shows "same_system (wdisk w) (wdisk w')"
  using assms
proof (cases rule: push_cases)
  case (ran b1)
  from ran(1) show ?thesis
  proof (cases rule: do_push_cases)
    case (unsaved e d)
    then show ?thesis using os_ops_same_system(1)
      by (auto simp: save_to_disk_def Let_def split: prod.splits option.splits) (metis snd_conv)
  next
    case (pushed d)
    then have "wdisk w' = d" by (metis push_commit_simps(8) snd_conv world.select_convs(1)
          world.surjective world.update_convs(1))
    with pushed show ?thesis by (auto dest!: save_to_disk_ok simp: same_system_def)
  qed simp
qed simp

lemma dlq_files_same_system: "same_system d (snd (dlq_files st dl i m d))"
proof -
  let ?d1 = "snd (os_write_file (message_file st i) (marshal_message m) d)"
  let ?d2 = "snd (os_rename (message_file st i) (message_file dl i) ?d1)"
  have 1: "same_system d ?d2" by (meson os_ops_same_system same_system_trans)
  then have 2: "same_system d (snd (os_write_file (message_file dl i) x ?d2))" for x
    by (meson os_ops_same_system same_system_trans)
  then have 3: "same_system d (snd (os_remove (message_file st i)
      (snd (os_write_file (message_file dl i) x ?d2))))" for x
    by (meson os_ops_same_system same_system_trans)
  show ?thesis
    unfolding dlq_files_def Let_def
    by (auto split: prod.split option.split sum.split) (use 1 2 3 in \<open>(metis snd_conv)+\<close>)
qed

lemma run_op_same_system:
  assumes "run_op op (b, w) = (r, b', w')"
  shows "same_system (wdisk w) (wdisk w')"
proof (cases op)
  case (OpPush t0 t1 m)
  with assms show ?thesis by (auto simp: run_op_Pair intro: push_same_system)
next
  case (OpPop t)
  with assms show ?thesis
    by (auto simp: run_op_Pair set_queue_size_def elim: pop_cases)
next
  case (OpAck i)
  then obtain r1 where "acknowledge i (b, w) = (r1, b', w')" using assms by (auto simp: run_op_Pair)
  then show ?thesis
    by (cases rule: acknowledge_cases)
      (use os_ops_same_system(2) in \<open>auto simp: remove_from_disk_def, (metis snd_conv)+\<close>)
next
  case (OpNack i)
  with assms show ?thesis by (auto simp: run_op_Pair elim: negative_acknowledge_cases)
next
  case (OpTick t order)
  with assms show ?thesis by (auto simp: timeout_tick_eq set_queue_size_def)
next
  case (OpDlq i)
  then obtain r1 where "move_to_dlq i (b, w) = (r1, b', w')" using assms by (auto simp: run_op_Pair)
  then show ?thesis
    by (cases rule: move_to_dlq_cases) (use dlq_files_same_system in \<open>auto, (metis snd_conv)+\<close>)
next
  case (OpUpdate m)
  then obtain r1 where "update_message m (b, w) = (r1, b', w')" using assms by (auto simp: run_op_Pair)
  then show ?thesis
  proof (cases rule: update_message_cases)
    case found
    then show ?thesis using os_ops_same_system(1)
      by (auto simp: save_to_disk_def Let_def split: prod.splits option.splits) (metis snd_conv)+
  qed simp
qed (use assms in auto)

lemma run_op_storage_path:
  "run_op op (b, w) = (r, b', w') \<Longrightarrow> storage_path b' = storage_path b"
  by (cases op) (auto simp: run_op_Pair timeout_tick_eq dest: push_frame
      elim: pop_cases acknowledge_cases negative_acknowledge_cases move_to_dlq_cases
        update_message_cases)

lemma durable_config [simp]:
  "durable (set_config n k b) d = durable b d" "durable (broker_reset t b) d = durable b d"
  "durable (broker_reset_config t n k b) d = durable b d"
  "durable (snd (subscribe b)) d = durable b d" "durable (snd (subscribe_messages b)) d = durable b d"
  by (simp_all add: durable_def pending_ok_def held_def)

lemma run_op_durable:
  assumes "run_op op (b, w) = (r, b', w')" "durable b (wdisk w)"
    "op_durable (storage_path b) (wdisk w) op" "set (push_ids [op]) \<inter> held_ids b = {}"
  shows "durable b' (wdisk w')"
proof (cases op)
  case (OpTick t order)
  with assms durable_tick [OF assms(2), of t order] show ?thesis by simp
qed (use assms in \<open>auto simp: run_op_Pair intro: durable_push durable_pop durable_ack durable_nack
      durable_dlq durable_update\<close>)

lemma run_op_held_ids:
  assumes "run_op op (b, w) = (r, b', w')" "op_walks op" "pending_ok b"
  shows "held_ids b' \<subseteq> held_ids b \<union> set (push_ids [op])"
proof -
  have "lq_run (abs_broker b) [(op, r)] (abs_broker b')"
    using run_op_refines [OF assms(1,2)] by (auto intro: lq_run.intros)
  note new = lq_run_ids_new [OF this lq_ok_abs [OF assms(3)]]
  have "held_ids b' \<subseteq> held_ids b \<union> msg_id ` set (accepted [(op, r)])"
    using new unfolding lq_ids_abs by blast
  moreover have "msg_id ` set (accepted [(op, r)]) \<subseteq> set (push_ids [op])"
    by (cases "[(op, r)]" rule: accepted.cases) auto
  ultimately show ?thesis by blast
qed

lemma op_durable_walks: "op_durable dir d op \<Longrightarrow> op_walks op"
  by (cases op) simp_all

lemma run_ops_durable:
  "run_ops ops (b, w) = (rs, b', w') \<Longrightarrow> durable b (wdisk w) \<Longrightarrow>
   \<forall>op \<in> set ops. op_durable (storage_path b) (wdisk w) op \<Longrightarrow>
   distinct (push_ids ops) \<Longrightarrow> set (push_ids ops) \<inter> held_ids b = {} \<Longrightarrow>
   durable b' (wdisk w') \<and> storage_path b' = storage_path b"
proof (induction ops arbitrary: b w rs)
  case Nil
  then show ?case by simp
next
  case (Cons op ops)
  from Cons.prems(1) obtain r rs1 b1 w1 where step: "run_op op (b, w) = (r, b1, w1)"
    "run_ops ops (b1, w1) = (rs1, b', w')" by (rule run_ops_Cons)
  have ids: "set (push_ids [op]) \<inter> held_ids b = {}" "set (push_ids ops) \<inter> held_ids b = {}"
    "set (push_ids [op]) \<inter> set (push_ids ops) = {}" "distinct (push_ids ops)"
    using Cons.prems(4,5) push_ids_Cons [of op ops] by auto
  have dur: "durable b1 (wdisk w1)"
    using run_op_durable [OF step(1)] Cons.prems ids(1) by simp
  have path: "storage_path b1 = storage_path b" using run_op_storage_path [OF step(1)] .
  have "held_ids b1 \<subseteq> held_ids b \<union> set (push_ids [op])"
    using run_op_held_ids [OF step(1)] Cons.prems(2,3) op_durable_walks by (auto simp: durable_def)
  then have "set (push_ids ops) \<inter> held_ids b1 = {}" using ids by blast
  moreover have "\<forall>op \<in> set ops. op_durable (storage_path b1) (wdisk w1) op"
    using Cons.prems(3) same_system_op_durable [OF run_op_same_system [OF step(1)]] path by simp
  ultimately show ?case using Cons.IH [OF step(2) dur] ids(4) path by simp
qed

section \<open>Recovery\<close>

text \<open>A disk a broker can start on: the directory is there and everything can be read.\<close>

definition readable :: "string \<Rightarrow> disk \<Rightarrow> bool" where
  "readable dir d \<longleftrightarrow> dir \<noteq> [] \<and> is_dir d (clean_path dir) \<and> io_ok d (OpReadDir dir) \<and>
     (\<forall>p. io_ok d (OpRead p))"

lemma file_ext_json [simp]: "file_ext (i @ ''.json'') = ''.json''"
  by (simp add: file_ext_def)

lemma mkdir_frame [simp]:
  "files (os_mkdir_all p d) = files d" "io_ok (os_mkdir_all p d) = io_ok d"
  "is_dir d q \<Longrightarrow> is_dir (os_mkdir_all p d) q"
  by (auto simp: os_mkdir_all_def Let_def is_dir_def)

lemma file_at_mkdir [simp]: "file_at (os_mkdir_all p d) q = file_at d q"
  by (simp add: file_at_def)

lemma recover_files_set:
  "set (recover_files dir d es) =
   {m. \<exists>(n, isdir) \<in> set es. file_ext n = ''.json'' \<and>
       (\<exists>data. os_read_file (join_path dir n) d = Inr data \<and> unmarshal_message data = Some m)}"
proof (induction dir d es rule: recover_files.induct)
  case (2 dir d name isdir es)
  then show ?case
    by (cases "os_read_file (join_path dir name) d"; cases "file_ext name = ''.json''")
      (auto split: option.splits)
qed simp

text \<open>A stored message is among those a start on that disk loads.\<close>

lemma stored_recovered:
  assumes "readable dir d" "plain_id i" "stored dir d i = Some m" "os_read_dir dir d = Inr es"
  shows "m \<in> set (recover_files dir d es)"
proof -
  obtain data where data: "file_at d (message_file dir i) = Some data" "unmarshal_message data = Some m"
    using assms(3) by (auto simp: stored_def split: option.splits)
  have "(i @ ''.json'', False) \<in> set (dir_entries d (clean_path dir))"
    using data(1) parent_message_file [OF assms(2), of dir] base_message_file [OF assms(2), of dir]
    by (force simp: dir_entries_def file_at_def image_iff dest: map_of_SomeD)
  then have "(i @ ''.json'', False) \<in> set es"
    using assms(4) by (auto simp: os_read_dir_def split: if_splits)
  moreover have "os_read_file (join_path dir (i @ ''.json'')) d = Inr data"
    using data(1) assms(1) by (simp add: os_read_file_def readable_def message_file_def)
  ultimately show ?thesis using data(2) by (auto simp: recover_files_set intro!: bexI)
qed

lemma new_broker_messages:
  assumes "readable st (wdisk w)"
  obtains es where "os_read_dir st (os_mkdir_all dl (os_mkdir_all st (wdisk w))) = Inr es"
    "messages (fst (new_broker st dl c w)) =
       recover_files st (os_mkdir_all dl (os_mkdir_all st (wdisk w))) es"
proof -
  let ?d = "os_mkdir_all dl (os_mkdir_all st (wdisk w))"
  obtain es where es: "os_read_dir st ?d = Inr es"
    using assms by (auto simp: readable_def os_read_dir_def)
  then have "messages (fst (new_broker st dl c w)) = recover_files st ?d es"
    by (simp add: new_broker_def recover_def empty_broker_def Let_def)
  with es that show ?thesis by blast
qed

lemma new_broker_recovers:
  assumes "readable st (wdisk w)" "plain_id i" "stored st (wdisk w) i = Some m"
  shows "m \<in> set (messages (fst (new_broker st dl c w)))"
proof -
  let ?d = "os_mkdir_all dl (os_mkdir_all st (wdisk w))"
  obtain es where es: "os_read_dir st ?d = Inr es"
    "messages (fst (new_broker st dl c w)) = recover_files st ?d es"
    using new_broker_messages [OF assms(1), of dl c] by metis
  have "readable st ?d" using assms(1) by (simp add: readable_def)
  moreover have "stored st ?d i = Some m" using assms(3) by (simp add: stored_def)
  ultimately show ?thesis using stored_recovered [OF _ assms(2) _ es(1)] es(2) by simp
qed

text \<open>Nothing loaded is without a file.\<close>

lemma new_broker_origin:
  assumes "readable st (wdisk w)" "m \<in> set (messages (fst (new_broker st dl c w)))"
  shows "\<exists>n data. file_at (wdisk w) (join_path st n) = Some data \<and> file_ext n = ''.json'' \<and>
    unmarshal_message data = Some m"
proof -
  let ?d = "os_mkdir_all dl (os_mkdir_all st (wdisk w))"
  obtain es where es: "os_read_dir st ?d = Inr es"
    "messages (fst (new_broker st dl c w)) = recover_files st ?d es"
    using new_broker_messages [OF assms(1), of dl c] by metis
  with assms(2) show ?thesis
    by (fastforce simp: recover_files_set os_read_file_def split: option.splits if_splits)
qed

section \<open>Acknowledged messages\<close>

lemma acknowledge_gone:
  assumes "acknowledge i (b, w) = (None, b', w')" "durable b (wdisk w)"
  shows "i \<notin> held_ids b' \<and> stored (storage_path b) (wdisk w') i = None"
  using assms(1)
proof (cases rule: acknowledge_cases)
  case unknown
  then show ?thesis by simp
next
  case queued
  with store.remove_ok [OF queued(4)] show ?thesis by (auto simp: held_ids_def)
next
  case (pending p)
  with store.remove_ok [OF pending(3)] assms(2) show ?thesis
    by (auto simp: held_ids_def durable_def)
qed

lemma save_file_other:
  "save_to_disk dir m d = (r, d') \<Longrightarrow> plain_id (msg_id m) \<Longrightarrow> plain_id i \<Longrightarrow> i \<noteq> msg_id m \<Longrightarrow>
   file_at d' (message_file dir i) = file_at d (message_file dir i)"
  by (auto intro!: save_to_disk_other dest: message_file_base)

lemma remove_file_other:
  "remove_from_disk dir j d = (r, d') \<Longrightarrow> plain_id j \<Longrightarrow> plain_id i \<Longrightarrow> i \<noteq> j \<Longrightarrow>
   file_at d' (message_file dir i) = file_at d (message_file dir i)"
  by (cases r) (auto simp: remove_from_disk_def message_file_inject dest!: os_remove_ok os_remove_failed)

text \<open>No operation touches the file of an identifier nobody holds and nobody pushes.\<close>

lemma run_op_file_other:
  assumes "run_op op (b, w) = (r, b', w')" "durable b (wdisk w)"
    "op_durable (storage_path b) (wdisk w) op" "plain_id i" "i \<notin> held_ids b" "i \<notin> set (push_ids [op])"
  shows "file_at (wdisk w') (message_file (storage_path b) i) =
         file_at (wdisk w) (message_file (storage_path b) i)"
proof -
  note plain = durable_plain [OF assms(2)]
  show ?thesis
  proof (cases op)
    case (OpPush t0 t1 m)
    then obtain r1 where "push t0 t1 m (b, w) = (r1, b', w')" using assms by (auto simp: run_op_Pair)
    then show ?thesis
    proof (cases rule: push_cases)
      case (ran b1)
      from ran(1) show ?thesis
      proof (cases rule: do_push_cases)
        case (unsaved e d)
        with assms OpPush save_file_other [OF unsaved(2) _ assms(4)] show ?thesis by auto
      next
        case (pushed d)
        then have "wdisk w' = d" by (metis push_commit_simps(8) snd_conv world.select_convs(1)
              world.surjective world.update_convs(1))
        with assms OpPush save_file_other [OF pushed(2) _ assms(4)] show ?thesis by auto
      qed simp
    qed simp
  next
    case (OpPop t)
    with assms show ?thesis by (auto simp: run_op_Pair set_queue_size_def elim: pop_cases)
  next
    case (OpAck j)
    then obtain r1 where "acknowledge j (b, w) = (r1, b', w')" using assms by (auto simp: run_op_Pair)
    then show ?thesis
      by (cases rule: acknowledge_cases)
        (use assms(4,5) plain remove_file_other in \<open>fastforce simp: held_ids_def\<close>)+
  next
    case (OpNack j)
    with assms show ?thesis by (auto simp: run_op_Pair elim: negative_acknowledge_cases)
  next
    case (OpTick t order)
    with assms show ?thesis by (auto simp: timeout_tick_eq set_queue_size_def)
  next
    case (OpDlq j)
    then obtain r1 where "move_to_dlq j (b, w) = (r1, b', w')" using assms by (auto simp: run_op_Pair)
    then show ?thesis
    proof (cases rule: move_to_dlq_cases)
      case (queued m b1)
      have "j \<in> held_ids b" using find_message_Some [OF queued(1)] by (auto simp: held_ids_def)
      then have "plain_id j" "j \<noteq> i" using plain assms(5) by auto
      then show ?thesis using message_file_base assms(4)
        by (intro dlq_files_other [OF queued(3)]) blast+
    qed simp
  next
    case (OpUpdate m)
    then obtain r1 where "update_message m (b, w) = (r1, b', w')" using assms by (auto simp: run_op_Pair)
    then show ?thesis
    proof (cases rule: update_message_cases)
      case found
      then have "msg_id m \<in> held_ids b" by (auto simp: held_ids_def)
      then show ?thesis using save_file_other [OF found(3) plain assms(4)] assms(5) by auto
    qed simp
  qed (use assms in auto)
qed

lemma run_ops_gone:
  "run_ops ops (b, w) = (rs, b', w') \<Longrightarrow> durable b (wdisk w) \<Longrightarrow>
   \<forall>op \<in> set ops. op_durable (storage_path b) (wdisk w) op \<Longrightarrow>
   distinct (push_ids ops) \<Longrightarrow> set (push_ids ops) \<inter> held_ids b = {} \<Longrightarrow>
   plain_id i \<Longrightarrow> i \<notin> held_ids b \<Longrightarrow> i \<notin> set (push_ids ops) \<Longrightarrow>
   i \<notin> held_ids b' \<and> file_at (wdisk w') (message_file (storage_path b) i) =
     file_at (wdisk w) (message_file (storage_path b) i)"
proof (induction ops arbitrary: b w rs)
  case Nil
  then show ?case by simp
next
  case (Cons op ops)
  from Cons.prems(1) obtain r rs1 b1 w1 where step: "run_op op (b, w) = (r, b1, w1)"
    "run_ops ops (b1, w1) = (rs1, b', w')" by (rule run_ops_Cons)
  have ids: "set (push_ids [op]) \<inter> held_ids b = {}" "set (push_ids ops) \<inter> held_ids b = {}"
    "set (push_ids [op]) \<inter> set (push_ids ops) = {}" "distinct (push_ids ops)"
    "i \<notin> set (push_ids [op])" "i \<notin> set (push_ids ops)"
    using Cons.prems(4,5,8) push_ids_Cons [of op ops] by auto
  have dur: "durable b1 (wdisk w1)"
    using run_op_durable [OF step(1)] Cons.prems ids(1) by simp
  have path: "storage_path b1 = storage_path b" using run_op_storage_path [OF step(1)] .
  have sub: "held_ids b1 \<subseteq> held_ids b \<union> set (push_ids [op])"
    using run_op_held_ids [OF step(1)] Cons.prems(2,3) op_durable_walks by (auto simp: durable_def)
  have "set (push_ids ops) \<inter> held_ids b1 = {}" "i \<notin> held_ids b1"
    using sub ids Cons.prems(7) by blast+
  moreover have "\<forall>op \<in> set ops. op_durable (storage_path b1) (wdisk w1) op"
    using Cons.prems(3) same_system_op_durable [OF run_op_same_system [OF step(1)]] path by simp
  ultimately have "i \<notin> held_ids b' \<and> file_at (wdisk w') (message_file (storage_path b1) i) =
     file_at (wdisk w1) (message_file (storage_path b1) i)"
    using Cons.IH [OF step(2) dur] ids(4,6) Cons.prems(6) by blast
  moreover have "file_at (wdisk w1) (message_file (storage_path b) i) =
      file_at (wdisk w) (message_file (storage_path b) i)"
    using run_op_file_other [OF step(1)] Cons.prems ids(5) by simp
  ultimately show ?case using path by simp
qed

section \<open>Properties\<close>

text \<open>
  C2: a crash loses nothing.  Start from a durable broker and let it serve any calls (on a
  disk that may refuse or tear writes), pushing well-formed messages under plain identifiers
  that are not in use.  Then a broker started on the files as they are at that moment has
  every message the old one answered for, queued or leased out, in its queue, with the same
  content.
\<close>

theorem crash_recovers:
  assumes "run_ops ops (b, w) = (rs, b', w')" "durable b (wdisk w)"
    "\<forall>op \<in> set ops. op_durable (storage_path b) (wdisk w) op"
    "distinct (push_ids ops)" "set (push_ids ops) \<inter> held_ids b = {}"
    "files d = files (wdisk w')" "readable (storage_path b) d"
  shows "held b' \<subseteq> set (messages (fst (new_broker (storage_path b) dl c \<lparr>wdisk = d, wmetrics = k\<rparr>)))"
proof
  fix m assume m: "m \<in> held b'"
  have dur: "durable b' (wdisk w')" "storage_path b' = storage_path b"
    using run_ops_durable [OF assms(1-5)] by auto
  have "stored (storage_path b) (wdisk w') (msg_id m) = Some m" "plain_id (msg_id m)"
    using dur durable_stored [OF dur(1) m] m by (auto simp: durable_def store.keeps_def)
  moreover have "stored (storage_path b) d = stored (storage_path b) (wdisk w')"
    using assms(6) by (simp add: stored_def file_at_def fun_eq_iff)
  ultimately show "m \<in> set (messages (fst (new_broker (storage_path b) dl c \<lparr>wdisk = d, wmetrics = k\<rparr>)))"
    using assms(7) by (auto intro: new_broker_recovers)
qed

lemma run_ops_same_system:
  "run_ops ops (b, w) = (rs, b', w') \<Longrightarrow> same_system (wdisk w) (wdisk w')"
proof (induction ops arbitrary: b w rs)
  case (Cons op ops)
  from Cons.prems obtain r rs1 b1 w1 where "run_op op (b, w) = (r, b1, w1)"
    "run_ops ops (b1, w1) = (rs1, b', w')" by (rule run_ops_Cons)
  then show ?case using Cons.IH run_op_same_system same_system_trans by blast
qed simp

lemma durable_demo [simp]: "durable demo_broker d"
  by (simp add: durable_def pending_ok_def held_def demo_broker_def empty_broker_def store.keeps_def)

lemma demo_broker_paths [simp]:
  "storage_path demo_broker = ''./data/messages''" "held_ids demo_broker = {}"
  by (simp_all add: demo_broker_def empty_broker_def held_ids_def)

lemma lease_ops_durable: "\<forall>op \<in> set lease_ops. op_durable ''./data/messages'' d op"
  "distinct (push_ids lease_ops)" "set (push_ids lease_ops) \<inter> held_ids demo_broker = {}"
  by (auto simp: lease_ops_def plain_id_def slash_def)

lemma crash_recovers_witness:
  "\<exists>d. demo_message ''b'' \<in>
     set (messages (fst (new_broker ''./data/messages'' ''./data/dead_letter'' None \<lparr>wdisk = d, wmetrics = zero_metrics\<rparr>)))"
proof -
  obtain rs b' w' where run: "run_ops lease_ops (demo_broker, demo_world) = (rs, b', w')"
    by (metis prod_cases3)
  have q: "messages (fst (snd (run_ops lease_ops (demo_broker, demo_world)))) = [demo_message ''b'']"
    by code_simp
  then have m: "demo_message ''b'' \<in> held b'" using run by (simp add: held_def)
  have "held b' \<subseteq> set (messages (fst (new_broker (storage_path demo_broker) ''./data/dead_letter'' None
      \<lparr>wdisk = wdisk w', wmetrics = zero_metrics\<rparr>)))"
    by (rule crash_recovers [OF run])
      (use lease_ops_durable run_ops_same_system [OF run] in \<open>simp_all add: readable_def same_system_def is_dir_def
        demo_world_def calm_disk_def clean_path_def is_rooted_def slash_def render_path_def\<close>)
  with m show ?thesis by auto
qed

text \<open>
  C9: an acknowledged message does not come back.  When an acknowledgement reports success
  on a durable broker, the message is neither queued nor leased out after any further calls
  that obey the same rules, and its file is gone, so no restart brings it back.
\<close>

theorem acknowledged_stays_gone:
  assumes "run_ops (OpAck i # ops) (b, w) = (RErr None # rs, b', w')" "durable b (wdisk w)"
    "\<forall>op \<in> set ops. op_durable (storage_path b) (wdisk w) op"
    "distinct (push_ids ops)" "set (push_ids ops) \<inter> held_ids b = {}"
  shows "i \<notin> held_ids b' \<and> stored (storage_path b) (wdisk w') i = None"
proof -
  from assms(1) obtain b1 w1 where ack: "acknowledge i (b, w) = (None, b1, w1)"
    and rest: "run_ops ops (b1, w1) = (rs, b', w')"
    by (rule run_ops_Cons) (auto simp: run_op_Pair)
  have step: "run_op (OpAck i) (b, w) = (RErr None, b1, w1)" using ack by simp
  have i: "i \<in> held_ids b" using ack
    by (cases rule: acknowledge_cases) (auto simp: held_ids_def)
  then have plain: "plain_id i" using assms(2) durable_plain by blast
  have gone: "i \<notin> held_ids b1" "stored (storage_path b) (wdisk w1) i = None"
    using acknowledge_gone [OF ack assms(2)] by auto
  have dur: "durable b1 (wdisk w1)" by (rule durable_ack [OF ack assms(2)])
  have path: "storage_path b1 = storage_path b" by (rule run_op_storage_path [OF step])
  have sub: "held_ids b1 \<subseteq> held_ids b"
    using run_op_held_ids [OF step] assms(2) by (auto simp: durable_def)
  have "i \<notin> held_ids b' \<and> file_at (wdisk w') (message_file (storage_path b1) i) =
      file_at (wdisk w1) (message_file (storage_path b1) i)"
    by (rule run_ops_gone [OF rest dur _ assms(4) _ plain gone(1)])
      (use assms(3,5) i sub path same_system_op_durable [OF run_op_same_system [OF step]] in auto)
  with gone(2) path show ?thesis by (simp add: stored_def)
qed

definition settle_ops :: "broker_op list" where
  "settle_ops = [OpPush 7 8 (demo_message ''c''), OpPop 9, OpTick 900000000000 [''c'']]"

lemma acknowledged_stays_gone_witness:
  "\<exists>rs b' w'. run_ops (OpAck ''a'' # settle_ops)
      (snd (run_ops [OpPush 1 2 (demo_message ''a''), OpPop 5] (demo_broker, demo_world))) =
    (RErr None # rs, b', w') \<and> ''a'' \<notin> held_ids b'"
proof -
  let ?ops = "[OpPush 1 2 (demo_message ''a''), OpPop 5]"
  obtain rs b w where start: "run_ops ?ops (demo_broker, demo_world) = (rs, b, w)"
    by (metis prod_cases3)
  obtain r1 rs1 b' w' where run: "run_ops (OpAck ''a'' # settle_ops) (b, w) = (r1 # rs1, b', w')"
    by (metis (no_types, lifting) list.exhaust list.distinct(1) prod_cases3 run_ops.simps(2) case_prod_conv)
  have "hd (fst (run_ops (OpAck ''a'' # settle_ops) (snd (run_ops ?ops (demo_broker, demo_world))))) = RErr None"
    by code_simp
  then have r1: "r1 = RErr None" using start run by simp
  have "messages (fst (snd (run_ops ?ops (demo_broker, demo_world)))) = []"
    "map fst (pending_acks (fst (snd (run_ops ?ops (demo_broker, demo_world))))) = [''a'']"
    by code_simp+
  then have held: "held_ids b = {''a''}"
    using start by (auto simp: held_ids_def dom_map_of_conv_image_fst simp flip: set_map)
  have dur: "durable b (wdisk w) \<and> storage_path b = storage_path demo_broker"
    by (rule run_ops_durable [OF start]) (auto simp: plain_id_def slash_def)
  have "''a'' \<notin> held_ids b' \<and> stored (storage_path b) (wdisk w') ''a'' = None"
    by (rule acknowledged_stays_gone [OF run [unfolded r1]])
      (use dur held in \<open>auto simp: settle_ops_def plain_id_def slash_def\<close>)
  with run start r1 show ?thesis by auto
qed

text \<open>
  C20: dead-lettering.  On a healthy disk with two different directories, \<open>MoveToDLQ\<close> of a
  queued message takes it out of the queue, leaves no file of it in the message directory,
  leaves its latest in-memory version in the dead-letter directory and counts it.
\<close>

theorem dead_letter_moves:
  assumes "durable b (wdisk w)" "healthy (wdisk w)" "find_message i (messages b) = Some m"
    "can_create (wdisk w) (message_file (storage_path b) i)"
    "can_create (wdisk w) (message_file (dead_letter_path b) i)"
    "clean_path (storage_path b) \<noteq> clean_path (dead_letter_path b)"
    "move_to_dlq i (b, w) = (r, b', w')"
  shows "r = None \<and> messages b' = drop_id i (messages b) \<and> dlq_size b' = dlq_size b + 1 \<and>
    stored (storage_path b) (wdisk w') i = None \<and>
    file_at (wdisk w') (message_file (dead_letter_path b) i) = Some (marshal_message m)"
proof -
  let ?old = "message_file (storage_path b) i" and ?new = "message_file (dead_letter_path b) i"
  let ?d = "put_file ?old (marshal_message m) (wdisk w)"
  have "plain_id i" using find_message_Some [OF assms(3)] assms(1)
    by (intro durable_plain) (auto simp: held_ids_def)
  then have ne: "?old \<noteq> ?new" using assms(6) parent_message_file by metis
  have files: "dlq_files (storage_path b) (dead_letter_path b) i m (wdisk w) =
      (None, put_file ?new (marshal_message m) (del_file ?old ?d))"
    using healthy_write [OF assms(2,4)] healthy_rename [of ?d ?old "marshal_message m" ?new] assms(2,5)
    by (simp add: dlq_files_def Let_def)
  from assms(7) show ?thesis
  proof (cases rule: move_to_dlq_cases)
    case unknown
    then show ?thesis using find_message_Some [OF assms(3)] by auto
  next
    case (queued m' b1)
    then have "r = None"
      and disk: "wdisk w' = put_file ?new (marshal_message m) (del_file ?old ?d)"
      using files assms(3) queued(1,3) by simp_all
    then show ?thesis using queued(2,4) ne by (simp add: stored_def disk)
  qed
qed

lemma dead_letter_moves_witness:
  "\<exists>b w b' w'. move_to_dlq ''a'' (b, w) = (None, b', w') \<and> messages b' = []"
proof -
  let ?b = "demo_broker\<lparr>messages := [demo_message ''a'']\<rparr>"
  let ?d = "put_file ''data/messages/a.json'' (marshal_message (demo_message ''a'')) calm_disk"
  have mf: "message_file ''./data/messages'' ''a'' = ''data/messages/a.json''"
    "message_file ''./data/dead_letter'' ''a'' = ''data/dead_letter/a.json''" by code_simp+
  have "durable ?b ?d"
    by (simp add: durable_def pending_ok_def held_def demo_broker_def empty_broker_def store.keeps_def
        stored_def mf unmarshal_marshal plain_id_def slash_def)
  moreover have "can_create calm_disk ''data/messages/a.json''"
    "can_create calm_disk ''data/dead_letter/a.json''"
    "clean_path ''./data/messages'' \<noteq> clean_path ''./data/dead_letter''" by code_simp+
  moreover obtain r b' w' where
    "move_to_dlq ''a'' (?b, \<lparr>wdisk = ?d, wmetrics = zero_metrics\<rparr>) = (r, b', w')" by (metis prod_cases3)
  ultimately show ?thesis
    using dead_letter_moves [of ?b "\<lparr>wdisk = ?d, wmetrics = zero_metrics\<rparr>" "''a''" "demo_message ''a''" r b' w']
    by (auto simp: mf demo_broker_def empty_broker_def find_message_def drop_id_def)
qed

end
