(* ===== verification/Grpc_Server.thy ===== *)
theory Grpc_Server
  imports Durability
begin

text \<open>
  \<open>pkg/server/grpc.go\<close>: the four calls of the broker service.  The request and response
  messages are those of \<open>broker.proto\<close> (the generated code only carries their fields); a call
  returns a response or an error.
\<close>

section \<open>Messages\<close>

record push_request =
  pr_id :: string
  pr_payload :: string
  pr_headers :: string

record push_response =
  ps_success :: bool
  ps_message :: string

record pop_response =
  po_id :: string
  po_payload :: string
  po_created_at :: int64

text \<open>The text of an error, \<open>err.Error()\<close>.\<close>

fun error_text :: "go_error \<Rightarrow> string" where
  "error_text CircuitOpen = ''circuit is open''"
| "error_text TrialInProgress = ''circuit is half-open and trial is in progress''"
| "error_text (QueueFull n) = ''queue is full (max size: '' @ print_int n @ ''), message rejected''"
| "error_text QueueEmpty = ''queue is empty''"
| "error_text (NotInMemory i) = ''message '' @ i @ '' not found in memory''"
| "error_text (NotPendingNorQueued i) = ''message '' @ i @ '' not found in pending nor queue''"
| "error_text (NotPending i) = ''message '' @ i @ '' not found in pending acks''"
| "error_text (PersistFailed e) = ''failed to persist message: '' @ error_text e"
| "error_text (WriteFailed p e) = ''os.WriteFile failed for path '' @ p @ '': '' @ error_text e"
| "error_text (TargetStatus n) = ''target returned status: '' @ print_int n"
| "error_text (DialFailed e) = ''failed to dial grpc target: '' @ error_text e"
| "error_text (DeliveryFailed e) = ''grpc delivery failed: '' @ error_text e"
| "error_text (TargetFailure s) = ''target returned failure status: '' @ s"
| "error_text (StorageFailed s e) = s @ '': '' @ error_text e"
| "error_text (BadHeaders n) = ''failed to unmarshal headers for '' @ n"
| "error_text (SysErr s) = s"

section \<open>Calls\<close>

definition grpc_message :: "time \<Rightarrow> push_request \<Rightarrow> message" where
  "grpc_message now req =
     zero_message\<lparr>msg_id := pr_id req, payload := VStr (pr_payload req), created_at := unix now\<rparr>"

text \<open>\<open>now\<close> is the clock for \<open>CreatedAt\<close>, \<open>t0\<close> and \<open>t1\<close> those of the breaker.\<close>

definition grpc_push :: "time \<Rightarrow> time \<Rightarrow> time \<Rightarrow> push_request \<Rightarrow> bw \<Rightarrow> push_response \<times> bw" where
  "grpc_push now t0 t1 req bw =
     (case push t0 t1 (grpc_message now req) bw of
        (Some e, bw) \<Rightarrow> (\<lparr>ps_success = False, ps_message = error_text e\<rparr>, bw)
      | (None, bw) \<Rightarrow> (\<lparr>ps_success = True, ps_message = ''Message pushed successfully''\<rparr>, bw))"

definition grpc_payload :: "any \<Rightarrow> string" where
  "grpc_payload v = (case v of VStr s \<Rightarrow> s | VNil \<Rightarrow> '''' | _ \<Rightarrow> print_json (encode_any v))"

text \<open>The error of a failed \<open>Pop\<close> has the prefix \<open>failed to pop message\<close>.\<close>

definition grpc_pop :: "time \<Rightarrow> bw \<Rightarrow> (go_error + pop_response) \<times> bw" where
  "grpc_pop now bw =
     (case pop now bw of
        (Inl e, bw) \<Rightarrow> (Inl (SysErr (''failed to pop message: '' @ error_text e)), bw)
      | (Inr msg, bw) \<Rightarrow>
          (Inr \<lparr>po_id = msg_id msg, po_payload = grpc_payload (payload msg),
                po_created_at = created_at msg\<rparr>, bw))"

definition grpc_ack :: "string \<Rightarrow> bw \<Rightarrow> bool \<times> bw" where
  "grpc_ack i bw =
     (case acknowledge i bw of (Some e, bw) \<Rightarrow> (False, bw) | (None, bw) \<Rightarrow> (True, bw))"

definition grpc_nack :: "string \<Rightarrow> bw \<Rightarrow> bool \<times> bw" where
  "grpc_nack i bw =
     (case negative_acknowledge i bw of (Some e, bw) \<Rightarrow> (False, bw) | (None, bw) \<Rightarrow> (True, bw))"

section \<open>Properties\<close>

text \<open>
  C28: a payload pushed over gRPC is popped unchanged.  On a broker whose queue is empty, a push
  that reports success followed by a pop returns the identifier, the payload and the time of
  the push, whatever the bytes of the payload (and whatever headers the request had: they are
  not kept).
\<close>

theorem grpc_push_pop:
  assumes "grpc_push now t0 t1 req (b, w) = (resp, bw1)" "ps_success resp" "messages b = []"
  shows "fst (grpc_pop t bw1) =
    Inr \<lparr>po_id = pr_id req, po_payload = pr_payload req, po_created_at = unix now\<rparr>"
proof -
  obtain r b1 w1 where push: "push t0 t1 (grpc_message now req) (b, w) = (r, b1, w1)"
    by (metis prod_cases3)
  have r: "r = None" "bw1 = (b1, w1)"
    using assms(1,2) push by (auto simp: grpc_push_def split: option.splits)
  have "messages b1 = [grpc_message now req]" using push_frame [OF push] r assms(3) by simp
  then show ?thesis
    using r by (simp add: grpc_pop_def pop_def Let_def grpc_payload_def grpc_message_def)
qed

definition sample_push :: push_request where
  "sample_push = \<lparr>pr_id = ''g-1'', pr_payload = ''any bytes'', pr_headers = ''ignored''\<rparr>"

lemma grpc_push_pop_witness:
  "map_prod (map_sum (\<lambda>_. ()) po_payload) (\<lambda>_. ())
     (grpc_pop 9 (snd (grpc_push 5 6 7 sample_push (demo_broker, demo_world)))) = (Inr ''any bytes'', ())"
proof -
  obtain resp bw1 where run: "grpc_push 5 6 7 sample_push (demo_broker, demo_world) = (resp, bw1)"
    by (meson surj_pair)
  have "ps_success (fst (grpc_push 5 6 7 sample_push (demo_broker, demo_world)))" by code_simp
  then have "fst (grpc_pop 9 bw1) =
      Inr \<lparr>po_id = pr_id sample_push, po_payload = pr_payload sample_push, po_created_at = unix 5\<rparr>"
    using run by (intro grpc_push_pop [OF run]) (simp, simp add: demo_broker_def empty_broker_def)
  then show ?thesis using run
    by (cases "grpc_pop 9 bw1") (simp add: sample_push_def)
qed

end
