(* ===== verification/Config.thy ===== *)
theory Config
  imports Complex_Main Models
begin

text \<open>
  \<open>config/config.go\<close>: the configuration the program is started with, and the targets it
  names.  Counts and seconds are Go \<open>int\<close>s; those the program computes with are words.
\<close>

text \<open>\<open>Headers\<close> is a Go map that may be nil (\<open>None\<close>).\<close>

record target_config =
  tc_name :: string
  tc_url :: string
  tc_headers :: "(string \<times> string) list option"

record config =
  cfg_host :: string
  cfg_port :: int
  cfg_http_port :: int
  cfg_grpc_port :: int
  cfg_storage_path :: string
  cfg_dead_letter_path :: string
  cfg_max_queue_size :: int
  cfg_ack_timeout_seconds :: int64
  cfg_threshold :: int
  cfg_timeout_seconds :: int64
  cfg_targets :: "target_config list"
  cfg_max_retries :: int64
  cfg_base_interval :: int64
  cfg_worker_count :: int
  cfg_rate_limit_rps :: rat
  cfg_rate_limit_burst :: int
  cfg_max_payload_size :: int64
  cfg_allowed_domains :: "string list"

text \<open>
  \<open>LoadConfig\<close>: the pointer, nil when the file cannot be read, and the error.  The file read
  and the YAML library (which fills the record and may report an error all the same) are
  arguments.
\<close>

definition load_config ::
  "(string \<Rightarrow> go_error + string) \<Rightarrow> (string \<Rightarrow> config \<times> go_error option) \<Rightarrow> string
     \<Rightarrow> config option \<times> go_error option" where
  "load_config read_file unmarshal path =
     (case read_file path of
        Inl e \<Rightarrow> (None, Some e)
      | Inr data \<Rightarrow> (case unmarshal data of (c, err) \<Rightarrow> (Some c, err)))"

text \<open>Ranging over a nil map is ranging over an empty one.\<close>

definition header_entries :: "(string \<times> string) list option \<Rightarrow> (string \<times> string) list" where
  "header_entries h = (case h of None \<Rightarrow> [] | Some kvs \<Rightarrow> kvs)"

section \<open>JSON of a target\<close>

text \<open>
  \<open>json.Marshal\<close> of a \<open>map[string]string\<close> and \<open>json.Unmarshal\<close> into one: keys sorted on
  output; null leaves the map nil, or one of its values empty; any other value that is not a
  string is an error.
\<close>

definition encode_headers :: "(string \<times> string) list option \<Rightarrow> json" where
  "encode_headers h =
     (case h of None \<Rightarrow> JNull | Some kvs \<Rightarrow> JObj (map (\<lambda>(k, v). (k, JStr v)) (map_puts kvs [])))"

fun decode_string_map :: "(string \<times> json) list \<Rightarrow> (string \<times> string) list \<Rightarrow> (string \<times> string) list option" where
  "decode_string_map [] m = Some m"
| "decode_string_map ((k, JStr s) # kjs) m = decode_string_map kjs (map_put k s m)"
| "decode_string_map ((k, JNull) # kjs) m = decode_string_map kjs (map_put k '''' m)"
| "decode_string_map _ m = None"

fun decode_headers :: "json \<Rightarrow> (string \<times> string) list option option" where
  "decode_headers JNull = Some None"
| "decode_headers (JObj kjs) = map_option Some (decode_string_map kjs [])"
| "decode_headers _ = None"

definition marshal_headers :: "(string \<times> string) list option \<Rightarrow> string" where
  "marshal_headers h = print_json (encode_headers h)"

definition unmarshal_headers :: "string \<Rightarrow> (string \<times> string) list option option" where
  "unmarshal_headers s = (case parse_json s of None \<Rightarrow> None | Some j \<Rightarrow> decode_headers j)"

definition wf_headers :: "(string \<times> string) list option \<Rightarrow> bool" where
  "wf_headers h \<longleftrightarrow> sorted_wrt (<) (map fst (header_entries h))"

lemma decode_string_map_strings:
  "decode_string_map (map (\<lambda>(k, v). (k, JStr v)) kvs) m = Some (map_puts kvs m)"
  by (induction kvs arbitrary: m) (auto simp: map_puts_def)

lemma map_puts_id: "sorted_wrt (<) (map fst kvs) \<Longrightarrow> map_puts kvs [] = kvs"
  using map_puts_sorted [of "[]" kvs] by simp

lemma unmarshal_marshal_headers: "wf_headers h \<Longrightarrow> unmarshal_headers (marshal_headers h) = Some h"
proof (cases h)
  case None
  then show ?thesis
    using parse_json_print [of JNull]
    by (simp add: unmarshal_headers_def marshal_headers_def encode_headers_def)
next
  case (Some kvs)
  assume "wf_headers h"
  then have "sorted_wrt (<) (map fst kvs)" using Some by (simp add: wf_headers_def header_entries_def)
  then have e: "encode_headers h = JObj (map (\<lambda>(k, v). (k, JStr v)) kvs)"
    using Some by (simp add: encode_headers_def map_puts_id)
  have "wf_json (JObj (map (\<lambda>(k, v). (k, JStr v)) kvs))" by (auto simp: list_all_iff)
  then show ?thesis
    using Some \<open>sorted_wrt (<) (map fst kvs)\<close> parse_json_print [of "JObj (map (\<lambda>(k, v). (k, JStr v)) kvs)"]
    by (simp add: unmarshal_headers_def marshal_headers_def e [unfolded Some]
        decode_string_map_strings map_puts_id)
qed

end
