(* ===== verification/Delivery.thy ===== *)
theory Delivery
  imports Config
begin

text \<open>
  What the dispatcher sends (\<open>getMergedHeaders\<close>, \<open>sendToHTTPTarget\<close>, \<open>sendToGRPCTarget\<close>,
  \<open>sendToTarget\<close> of \<open>pkg/broker/dispatcher.go\<close>).  What the other side answers is an
  argument (\<open>network\<close>): the program is correct or not for every such answer.
\<close>

section \<open>Merged headers\<close>

text \<open>The headers a message brings: a map, or a string that holds a JSON object.\<close>

definition any_entries :: "any \<Rightarrow> (string \<times> string) list" where
  "any_entries v = (case v of VMap kvs \<Rightarrow> map (\<lambda>(k, x). (k, fmt_v x)) kvs | _ \<Rightarrow> [])"

definition message_header_entries :: "message \<Rightarrow> (string \<times> string) list" where
  "message_header_entries msg =
     (case headers msg of
        VStrMap kvs \<Rightarrow> kvs
      | VMap kvs \<Rightarrow> any_entries (VMap kvs)
      | VStr h \<Rightarrow> (case parse_json h of Some (JObj kjs) \<Rightarrow> any_entries (decode_any (JObj kjs)) | _ \<Rightarrow> [])
      | _ \<Rightarrow> [])"

abbreviation message_id_header :: string where
  "message_id_header \<equiv> ''X-Message-ID''"

definition get_merged_headers :: "target_config \<Rightarrow> message \<Rightarrow> (string \<times> string) list" where
  "get_merged_headers tc msg =
     (let merged = map_puts (header_entries (tc_headers tc)) [];
          merged = map_puts (message_header_entries msg) merged
      in map_put message_id_header (msg_id msg) merged)"

lemma map_of_map_put [simp]: "map_of (map_put k v m) j = (if j = k then Some v else map_of m j)"
  by (induction m) auto

lemma map_of_map_puts:
  "map_of (map_puts kvs m) j = (case map_of (rev kvs) j of None \<Rightarrow> map_of m j | Some v \<Rightarrow> Some v)"
  by (induction kvs arbitrary: m) (auto simp: map_puts_def map_add_def split: option.splits)

lemma map_put_keys: "fst ` set (map_put k v m) = insert k (fst ` set m)"
proof -
  have "dom (map_of (map_put k v m)) = insert k (dom (map_of m))" by (auto simp: dom_def)
  then show ?thesis by (simp add: dom_map_of_conv_image_fst)
qed

lemma sorted_map_put:
  "sorted_wrt (<) (map fst m) \<Longrightarrow> sorted_wrt (<) (map fst (map_put k v m))"
proof (induction m)
  case (Cons kv m)
  obtain k' v' where kv: "kv = (k', v')" by (cases kv)
  show ?case
    using Cons arg_cong [OF map_put_keys [of k v m], of Ball] unfolding kv
    by (auto simp: fun_eq_iff)
qed simp

lemma sorted_map_puts:
  "sorted_wrt (<) (map fst m) \<Longrightarrow> sorted_wrt (<) (map fst (map_puts kvs m))"
  by (induction kvs arbitrary: m) (auto simp: map_puts_def sorted_map_put)

lemma sorted_merged: "sorted_wrt (<) (map fst (get_merged_headers tc msg))"
  unfolding get_merged_headers_def Let_def by (intro sorted_map_put sorted_map_puts) simp

lemma map_ok_merged [simp]: "map_ok (get_merged_headers tc msg)"
  using sorted_merged [of tc msg] by (simp add: map_ok_def keys_def strict_sorted_iff)

section \<open>HTTP\<close>

text \<open>
  \<open>textproto.CanonicalMIMEHeaderKey\<close>: a key made of token characters gets an upper-case
  letter at the start and after each hyphen and lower-case letters elsewhere; any other key
  stays as it is.
\<close>

definition to_upper :: "char \<Rightarrow> char" where
  "to_upper c = (let n = of_char c :: nat in if 97 \<le> n \<and> n \<le> 122 then char_of (n - 32) else c)"

definition token_char :: "char \<Rightarrow> bool" where
  "token_char c \<longleftrightarrow>
     (let n = of_char c :: nat in
      (48 \<le> n \<and> n \<le> 57) \<or> (65 \<le> n \<and> n \<le> 90) \<or> (97 \<le> n \<and> n \<le> 122) \<or>
      n \<in> {33, 35, 36, 37, 38, 39, 42, 43, 45, 46, 94, 95, 96, 124, 126})"

fun canon_chars :: "bool \<Rightarrow> string \<Rightarrow> string" where
  "canon_chars upper [] = []"
| "canon_chars upper (c # cs) =
     (if upper then to_upper c else to_lower c) # canon_chars (c = CHR ''-'') cs"

definition canonical_key :: "string \<Rightarrow> string" where
  "canonical_key k = (if list_all token_char k then canon_chars True k else k)"

record http_request =
  hr_url :: string
  hr_headers :: "(string \<times> string) list"
  hr_body :: string

text \<open>\<open>req.Header.Set\<close>; \<open>order\<close> is the order in which the merged map is ranged over.\<close>

definition header_set :: "string \<Rightarrow> string \<Rightarrow> (string \<times> string) list \<Rightarrow> (string \<times> string) list" where
  "header_set k v h = AList.update (canonical_key k) v h"

definition set_headers ::
  "string list \<Rightarrow> (string \<times> string) list \<Rightarrow> (string \<times> string) list \<Rightarrow> (string \<times> string) list" where
  "set_headers order merged h =
     fold (\<lambda>k h. case map_of merged k of None \<Rightarrow> h | Some v \<Rightarrow> header_set k v h) order h"

definition http_request_of :: "string list \<Rightarrow> target_config \<Rightarrow> message \<Rightarrow> http_request" where
  "http_request_of order tc msg =
     \<lparr>hr_url = tc_url tc,
      hr_headers = set_headers order (get_merged_headers tc msg)
        (header_set ''Content-Type'' ''application/json'' []),
      hr_body = print_json (encode_any (payload msg))\<rparr>"

section \<open>gRPC\<close>

record delivery_request =
  dr_id :: string
  dr_payload :: string
  dr_origin_timestamp :: int64
  dr_headers :: string

definition payload_string :: "any \<Rightarrow> string" where
  "payload_string v = (case v of VStr s \<Rightarrow> s | _ \<Rightarrow> print_json (encode_any v))"

definition delivery_request_of :: "target_config \<Rightarrow> message \<Rightarrow> delivery_request" where
  "delivery_request_of tc msg =
     \<lparr>dr_id = msg_id msg, dr_payload = payload_string (payload msg),
      dr_origin_timestamp = created_at msg,
      dr_headers = marshal_headers (Some (get_merged_headers tc msg))\<rparr>"

section \<open>Sending\<close>

text \<open>
  The answers of the outside: whether a URL parses, the status of an HTTP request, whether a
  dial succeeds, and the status string of a delivery call with its metadata.
\<close>

record network =
  net_url :: "string \<Rightarrow> go_error option"
  net_http :: "http_request \<Rightarrow> go_error + int"
  net_dial :: "string \<Rightarrow> go_error option"
  net_deliver :: "string \<Rightarrow> (string \<times> string) list \<Rightarrow> delivery_request \<Rightarrow> go_error + string"

definition send_to_http_target ::
  "string list \<Rightarrow> network \<Rightarrow> target_config \<Rightarrow> message \<Rightarrow> go_error option" where
  "send_to_http_target order net tc msg =
     (case net_url net (tc_url tc) of
        Some e \<Rightarrow> Some e
      | None \<Rightarrow>
          (case net_http net (http_request_of order tc msg) of
             Inl e \<Rightarrow> Some e
           | Inr status \<Rightarrow> if 400 \<le> status then Some (TargetStatus status) else None))"

definition grpc_prefix :: string where "grpc_prefix = ''grpc://''"

definition has_prefix :: "string \<Rightarrow> string \<Rightarrow> bool" where
  "has_prefix s p \<longleftrightarrow> take (length p) s = p"

definition trim_prefix :: "string \<Rightarrow> string \<Rightarrow> string" where
  "trim_prefix s p = (if has_prefix s p then drop (length p) s else s)"

definition send_to_grpc_target :: "network \<Rightarrow> target_config \<Rightarrow> message \<Rightarrow> go_error option" where
  "send_to_grpc_target net tc msg =
     (let addr = trim_prefix (tc_url tc) grpc_prefix in
      case net_dial net addr of
        Some e \<Rightarrow> Some (DialFailed e)
      | None \<Rightarrow>
          (case net_deliver net addr (get_merged_headers tc msg) (delivery_request_of tc msg) of
             Inl e \<Rightarrow> Some (DeliveryFailed e)
           | Inr status \<Rightarrow> if status \<noteq> ''SUCCESS'' then Some (TargetFailure status) else None))"

definition send_to_target ::
  "string list \<Rightarrow> network \<Rightarrow> target_config \<Rightarrow> message \<Rightarrow> go_error option" where
  "send_to_target order net tc msg =
     (if has_prefix (tc_url tc) grpc_prefix then send_to_grpc_target net tc msg
      else send_to_http_target order net tc msg)"

section \<open>Header lookups\<close>

lemma set_headers_other:
  "\<forall>k' \<in> set order. canonical_key k' \<noteq> c \<Longrightarrow> map_of (set_headers order merged h) c = map_of h c"
proof (induction order arbitrary: h)
  case (Cons k order)
  have step: "map_of (case map_of merged k of None \<Rightarrow> h | Some v \<Rightarrow> header_set k v h) c = map_of h c"
    using Cons.prems by (auto simp: header_set_def split: option.split)
  have "set_headers (k # order) merged h =
      set_headers order merged (case map_of merged k of None \<Rightarrow> h | Some v \<Rightarrow> header_set k v h)"
    by (simp add: set_headers_def)
  with Cons.IH Cons.prems step show ?case by simp
qed (simp add: set_headers_def)

lemma set_headers_lookup:
  assumes "k \<in> set order" "map_of merged k = Some v"
    "\<forall>k' \<in> set order. canonical_key k' = canonical_key k \<longrightarrow> k' = k"
  shows "map_of (set_headers order merged h) (canonical_key k) = Some v"
  using assms(1,3)
proof (induction order arbitrary: h)
  case (Cons x order)
  have e: "set_headers (x # order) merged h =
      set_headers order merged (case map_of merged x of None \<Rightarrow> h | Some v \<Rightarrow> header_set x v h)"
    by (simp add: set_headers_def)
  show ?case
  proof (cases "k \<in> set order")
    case True
    with Cons e show ?thesis by simp
  next
    case False
    then have "x = k" "\<forall>k' \<in> set order. canonical_key k' \<noteq> canonical_key k"
      using Cons.prems by auto
    then show ?thesis using e assms(2) set_headers_other [of order "canonical_key k"]
      by (simp add: header_set_def)
  qed
qed simp

section \<open>Properties\<close>

text \<open>
  C24: header precedence.  Looking a header up in the merged headers gives the identifier of the
  message under \<open>X-Message-ID\<close>, and otherwise the value the message brings (from a map or from
  a string that holds a JSON object, the later of two entries winning), and otherwise the
  default of the target.
\<close>

theorem header_precedence:
  "map_of (get_merged_headers tc msg) k =
     (if k = ''X-Message-ID'' then Some (msg_id msg)
      else case map_of (rev (message_header_entries msg)) k of
             Some v \<Rightarrow> Some v
           | None \<Rightarrow> map_of (rev (header_entries (tc_headers tc))) k)"
  by (simp add: get_merged_headers_def map_of_map_puts split: option.split)

text \<open>
  C23: headers reach the HTTP request.  A merged header whose canonical name no other merged
  header shares is in the request under that name with the merged value, whatever order Go
  ranges over the map in; in particular a header of the message replaces the default
  \<open>Content-Type\<close>.
\<close>

theorem http_header_arrives:
  assumes "set order = dom (map_of (get_merged_headers tc msg))"
    "map_of (get_merged_headers tc msg) k = Some v"
    "\<forall>k' \<in> set order. canonical_key k' = canonical_key k \<longrightarrow> k' = k"
  shows "map_of (hr_headers (http_request_of order tc msg)) (canonical_key k) = Some v"
  using assms by (auto simp: http_request_of_def intro!: set_headers_lookup)

definition sample_target :: target_config where
  "sample_target = \<lparr>tc_name = ''billing'', tc_url = ''http://localhost:9590/webhook'',
     tc_headers = Some [(''Authorization'', ''secret'')]\<rparr>"

lemma http_header_arrives_witness:
  "map_of (hr_headers (http_request_of [''trace'', ''X-Message-ID'', ''Authorization'']
      sample_target sample_message)) ''Authorization'' = Some ''secret''"
proof -
  have m: "get_merged_headers sample_target sample_message =
      [(''Authorization'', ''secret''), (''X-Message-ID'', ''order-1''), (''trace'', ''x'')]" by code_simp
  have c: "canonical_key ''Authorization'' = ''Authorization''" "canonical_key ''trace'' = ''Trace''"
    "canonical_key ''X-Message-ID'' = ''X-Message-Id''" by code_simp+
  show ?thesis
    using http_header_arrives [of "[''trace'', ''X-Message-ID'', ''Authorization'']" sample_target
        sample_message "''Authorization''" "''secret''"] m
    by (auto simp: c)
qed

definition forged_message :: message where
  "forged_message = zero_message\<lparr>msg_id := ''1'', headers := VMap [(''x-message-id'', VStr ''2'')]\<rparr>"


end
