(* ===== verification/Net_Addr.thy ===== *)
theory Net_Addr
  imports Delivery
begin

text \<open>
  What the registration of a target uses of \<open>net\<close> and \<open>net/url\<close>: textual IP addresses
  (\<open>ParseIP\<close>, as sixteen bytes), the classes of addresses, and the host of a URL (\<open>Parse\<close>,
  \<open>Hostname\<close>).
\<close>

section \<open>Strings\<close>

text \<open>\<open>strings.Cut\<close> at the first separator, and the parts before and after the last one.\<close>

definition cut_first :: "char \<Rightarrow> string \<Rightarrow> string \<times> string option" where
  "cut_first sep s =
     (let a = takeWhile (\<lambda>c. c \<noteq> sep) s; r = dropWhile (\<lambda>c. c \<noteq> sep) s
      in (a, case r of [] \<Rightarrow> None | _ # b \<Rightarrow> Some b))"

definition cut_last :: "char \<Rightarrow> string \<Rightarrow> (string \<times> string) option" where
  "cut_last sep s =
     (case cut_first sep (rev s) of (b, None) \<Rightarrow> None | (b, Some a) \<Rightarrow> Some (rev a, rev b))"

fun split_on :: "char \<Rightarrow> string \<Rightarrow> string list" where
  "split_on sep [] = [[]]"
| "split_on sep (c # cs) =
     (if c = sep then [] # split_on sep cs
      else (case split_on sep cs of e # es \<Rightarrow> (c # e) # es | [] \<Rightarrow> [[c]]))"

section \<open>IP addresses\<close>

type_synonym ip_addr = "nat list"

text \<open>One field of a dotted address: 1 to 3 digits, at most 255, no leading zero.\<close>

definition parse_octet :: "string \<Rightarrow> nat option" where
  "parse_octet s =
     (if s \<noteq> [] \<and> list_all is_digit s \<and> (hd s \<noteq> CHR ''0'' \<or> length s = 1) \<and> nat_of_digits s \<le> 255
      then Some (nat_of_digits s) else None)"

definition parse_ipv4 :: "string \<Rightarrow> nat list option" where
  "parse_ipv4 s =
     (case map parse_octet (split_on CHR ''.'' s) of
        [Some a, Some b, Some c, Some d] \<Rightarrow> Some [a, b, c, d]
      | _ \<Rightarrow> None)"

definition v4_mapped :: "nat list \<Rightarrow> ip_addr" where
  "v4_mapped b = replicate 10 0 @ [255, 255] @ b"

definition hex_digit_val :: "char \<Rightarrow> nat option" where
  "hex_digit_val c =
     (let n = of_char c :: nat in
      if 48 \<le> n \<and> n \<le> 57 then Some (n - 48)
      else if 97 \<le> n \<and> n \<le> 102 then Some (n - 87)
      else if 65 \<le> n \<and> n \<le> 70 then Some (n - 55)
      else None)"

definition hex_val_of :: "string \<Rightarrow> nat" where
  "hex_val_of ds = foldl (\<lambda>n c. 16 * n + the (hex_digit_val c)) 0 ds"

text \<open>
  The loop over the groups of an IPv6 address: \<open>acc\<close> are the bytes so far, \<open>ell\<close> the position
  of the ellipsis; the result has the bytes and the position.
\<close>

function parse_groups :: "nat list \<Rightarrow> nat option \<Rightarrow> string \<Rightarrow> (nat list \<times> nat option) option" where
  "parse_groups acc ell s =
     (if 16 \<le> length acc then (if s = [] then Some (acc, ell) else None)
      else
        let ds = takeWhile (\<lambda>c. hex_digit_val c \<noteq> None) s;
            r = dropWhile (\<lambda>c. hex_digit_val c \<noteq> None) s
        in if ds = [] \<or> 4 < length ds then None
           else if r \<noteq> [] \<and> hd r = CHR ''.'' then
             (if (ell = None \<and> length acc \<noteq> 12) \<or> 12 < length acc then None
              else (case parse_ipv4 s of None \<Rightarrow> None | Some b \<Rightarrow> Some (acc @ b, ell)))
           else
             let v = hex_val_of ds; acc = acc @ [v div 256, v mod 256]
             in (case r of
                   [] \<Rightarrow> Some (acc, ell)
                 | c # r1 \<Rightarrow>
                     if c \<noteq> CHR '':'' then None
                     else (case r1 of
                             [] \<Rightarrow> None
                           | c1 # r2 \<Rightarrow>
                               if c1 = CHR '':'' then
                                 (if ell \<noteq> None then None
                                  else if r2 = [] then Some (acc, Some (length acc))
                                  else parse_groups acc (Some (length acc)) r2)
                               else parse_groups acc ell (c1 # r2))))"
  by pat_completeness auto
termination
  by (relation "measure (\<lambda>(acc, ell, s). 16 - length acc)") (auto split: if_splits)

declare parse_groups.simps [simp del]

definition expand_ellipsis :: "nat list \<times> nat option \<Rightarrow> ip_addr option" where
  "expand_ellipsis p =
     (case p of
        (b, None) \<Rightarrow> if length b = 16 then Some b else None
      | (b, Some k) \<Rightarrow> if length b < 16 then Some (take k b @ replicate (16 - length b) 0 @ drop k b) else None)"

definition parse_ipv6 :: "string \<Rightarrow> ip_addr option" where
  "parse_ipv6 s =
     (if take 2 s = ''::'' then
        (if drop 2 s = [] then Some (replicate 16 0)
         else Option.bind (parse_groups [] (Some 0) (drop 2 s)) expand_ellipsis)
      else Option.bind (parse_groups [] None s) expand_ellipsis)"

text \<open>
  The first dot, colon or percent sign decides the syntax.  An address with a zone is not an
  address for \<open>ParseIP\<close>.
\<close>

definition parse_ip :: "string \<Rightarrow> ip_addr option" where
  "parse_ip s =
     (case dropWhile (\<lambda>c. c \<notin> {CHR ''.'', CHR '':'', CHR ''%''}) s of
        [] \<Rightarrow> None
      | c # _ \<Rightarrow>
          if c = CHR ''.'' then map_option v4_mapped (parse_ipv4 s)
          else if c = CHR '':'' \<and> CHR ''%'' \<notin> set s then parse_ipv6 s
          else None)"

definition to4 :: "ip_addr \<Rightarrow> nat list option" where
  "to4 ip = (if take 12 ip = replicate 10 0 @ [255, 255] then Some (drop 12 ip) else None)"

definition is_loopback :: "ip_addr \<Rightarrow> bool" where
  "is_loopback ip = (case to4 ip of Some b \<Rightarrow> b ! 0 = 127 | None \<Rightarrow> ip = replicate 15 0 @ [1])"

definition is_link_local_unicast :: "ip_addr \<Rightarrow> bool" where
  "is_link_local_unicast ip =
     (case to4 ip of Some b \<Rightarrow> b ! 0 = 169 \<and> b ! 1 = 254 | None \<Rightarrow> ip ! 0 = 254 \<and> ip ! 1 div 64 = 2)"

definition is_link_local_multicast :: "ip_addr \<Rightarrow> bool" where
  "is_link_local_multicast ip =
     (case to4 ip of Some b \<Rightarrow> b ! 0 = 224 \<and> b ! 1 = 0 \<and> b ! 2 = 0 | None \<Rightarrow> ip ! 0 = 255 \<and> ip ! 1 mod 16 = 2)"

text \<open>\<open>IPNet.Contains\<close> for an IPv4 network of a prefix length: the leading bits agree.\<close>

definition v4_number :: "nat list \<Rightarrow> nat" where
  "v4_number b = foldl (\<lambda>n x. 256 * n + x) 0 b"

definition v4_net_contains :: "nat list \<Rightarrow> nat \<Rightarrow> ip_addr \<Rightarrow> bool" where
  "v4_net_contains base bits ip =
     (case to4 ip of
        None \<Rightarrow> False
      | Some b \<Rightarrow> v4_number b div 2 ^ (32 - bits) = v4_number base div 2 ^ (32 - bits))"

section \<open>URLs\<close>

definition is_letter :: "char \<Rightarrow> bool" where
  "is_letter c \<longleftrightarrow> (let n = of_char c :: nat in (65 \<le> n \<and> n \<le> 90) \<or> (97 \<le> n \<and> n \<le> 122))"

definition is_ctl :: "char \<Rightarrow> bool" where
  "is_ctl c \<longleftrightarrow> (let n = of_char c :: nat in n < 32 \<or> n = 127)"

text \<open>
  The scheme and the rest.  A character that no scheme has, or a scheme character but a letter
  in front, means that there is none; a colon in front is an error.
\<close>

definition get_scheme :: "string \<Rightarrow> (string \<times> string) option" where
  "get_scheme s =
     (let ok = (\<lambda>c. is_letter c \<or> is_digit c \<or> c \<in> set ''+-.'');
          sch = takeWhile ok s; r = dropWhile ok s
      in case r of
           [] \<Rightarrow> Some ([], s)
         | c # rest \<Rightarrow>
             if c \<noteq> CHR '':'' then Some ([], s)
             else if sch = [] then None
             else if \<not> is_letter (hd sch) then Some ([], s)
             else Some (map to_lower sch, rest))"

text \<open>Percent escapes: whether each has two hexadecimal digits.\<close>

fun escapes_ok :: "string \<Rightarrow> bool" where
  "escapes_ok [] = True"
| "escapes_ok (c # cs) =
     (if c = CHR ''%'' then
        (case cs of
           a # b # r \<Rightarrow> hex_digit_val a \<noteq> None \<and> hex_digit_val b \<noteq> None \<and> escapes_ok r
         | _ \<Rightarrow> False)
      else escapes_ok cs)"

text \<open>
  \<open>unescape\<close> of a host: of the ASCII bytes only \<open>%25\<close> may be written as an escape, and the
  bytes outside the host alphabet are an error.  In a zone the escapes may give a space or
  any byte of the alphabet.
\<close>

definition host_char :: "char \<Rightarrow> bool" where
  "host_char c \<longleftrightarrow> is_letter c \<or> is_digit c \<or> 128 \<le> (of_char c :: nat) \<or>
     c \<in> set ''!$&()*+,;=:[]<>-_.~'' \<or> c = CHR 0x22 \<or> c = CHR 0x27"

fun unescape_host :: "bool \<Rightarrow> string \<Rightarrow> string option" where
  "unescape_host zone [] = Some []"
| "unescape_host zone (c # cs) =
     (if c = CHR ''%'' then
        (case cs of
           a # b # r \<Rightarrow>
             (case (hex_digit_val a, hex_digit_val b) of
                (Some x, Some y) \<Rightarrow>
                  let v = char_of (16 * x + y) in
                  if (a = CHR ''2'' \<and> b = CHR ''5'') \<or> (\<not> zone \<and> 8 \<le> x) \<or>
                     (zone \<and> (v = CHR '' '' \<or> (is_letter v \<or> is_digit v \<or> (host_char v \<and> x < 8))))
                  then map_option (\<lambda>h. v # h) (unescape_host zone r) else None
              | _ \<Rightarrow> None)
         | _ \<Rightarrow> None)
      else if host_char c then map_option (\<lambda>h. c # h) (unescape_host zone cs)
      else None)"

definition valid_optional_port :: "string \<Rightarrow> bool" where
  "valid_optional_port p \<longleftrightarrow> p = [] \<or> (hd p = CHR '':'' \<and> list_all is_digit (tl p))"

fun index_of :: "string \<Rightarrow> string \<Rightarrow> nat option" where
  "index_of p [] = (if p = [] then Some 0 else None)"
| "index_of p (c # cs) =
     (if take (length p) (c # cs) = p then Some 0 else map_option Suc (index_of p cs))"

definition parse_host :: "string \<Rightarrow> string option" where
  "parse_host host =
     (if take 1 host = ''['' then
        (case cut_last (CHR '']'') host of
           None \<Rightarrow> None
         | Some (inner, after) \<Rightarrow>
             if \<not> valid_optional_port after then None
             else
               (case index_of ''%25'' inner of
                  None \<Rightarrow> unescape_host False host
                | Some k \<Rightarrow>
                    (case (unescape_host False (take k inner), unescape_host True (drop k inner),
                           unescape_host False (CHR '']'' # after)) of
                       (Some a, Some b, Some c) \<Rightarrow> Some (a @ b @ c)
                     | _ \<Rightarrow> None)))
      else
        (case cut_last (CHR '':'') host of
           Some (h, p) \<Rightarrow> if list_all is_digit p then unescape_host False host else None
         | None \<Rightarrow> unescape_host False host))"

definition userinfo_char :: "char \<Rightarrow> bool" where
  "userinfo_char c \<longleftrightarrow> is_letter c \<or> is_digit c \<or> c \<in> set ''-._:~!$&()*+,;=%@'' \<or> c = CHR 0x27"

definition parse_authority :: "string \<Rightarrow> string option" where
  "parse_authority a =
     (case cut_last (CHR ''@'') a of
        None \<Rightarrow> parse_host a
      | Some (user, host) \<Rightarrow>
          (case parse_host host of
             None \<Rightarrow> None
           | Some h \<Rightarrow> if list_all userinfo_char user \<and> escapes_ok user then Some h else None))"

text \<open>\<open>url.Parse\<close>: the \<open>Host\<close> field, \<open>None\<close> for an error.\<close>

definition url_host :: "string \<Rightarrow> string option" where
  "url_host raw =
     (let (u, frag) = cut_first (CHR ''#'') raw in
      if (case frag of None \<Rightarrow> False | Some f \<Rightarrow> \<not> escapes_ok f) \<or> list_ex is_ctl u then None
      else if u = ''*'' then Some []
      else
        (case get_scheme u of
           None \<Rightarrow> None
         | Some (scheme, rest) \<Rightarrow>
             let rest = fst (cut_first (CHR ''?'') rest) in
             if take 1 rest \<noteq> ''/'' \<and> scheme \<noteq> [] then Some []
             else if take 1 rest \<noteq> ''/'' \<and> CHR '':'' \<in> set (fst (cut_first (CHR ''/'') rest)) then None
             else if (scheme \<noteq> [] \<or> take 3 rest \<noteq> ''///'') \<and> take 2 rest = ''//'' then
               (let (authority, path) = cut_first (CHR ''/'') (drop 2 rest) in
                case parse_authority authority of
                  None \<Rightarrow> None
                | Some host \<Rightarrow>
                    if (case path of None \<Rightarrow> True | Some p \<Rightarrow> escapes_ok p) then Some host else None)
             else if escapes_ok rest then Some [] else None))"

text \<open>\<open>Hostname\<close>: the host without port and brackets.\<close>

definition hostname_of :: "string \<Rightarrow> string" where
  "hostname_of host =
     (let h = (case cut_last (CHR '':'') host of
                 Some (a, p) \<Rightarrow> if list_all is_digit p then a else host
               | None \<Rightarrow> host)
      in if take 1 h = ''['' \<and> h \<noteq> [] \<and> last h = CHR '']'' then butlast (tl h) else h)"

definition url_hostname :: "string \<Rightarrow> string option" where
  "url_hostname raw = map_option hostname_of (url_host raw)"

end
