(* ===== verification/Retry_Heap.thy ===== *)
theory Retry_Heap
  imports Models
begin

text \<open>
  \<open>pkg/broker/heap.go\<close> and the part of \<open>container/heap\<close> it is used through: a binary heap
  in a slice, sifted up and down with \<open>Less\<close> and \<open>Swap\<close>.  The heap operations are generic
  in \<open>Less\<close>, as the package is; what they promise is proved once in \<open>heap_order\<close> and
  interpreted for the retry times of messages.
\<close>

section \<open>The operations of container/heap\<close>

definition heap_swap :: "'a list \<Rightarrow> nat \<Rightarrow> nat \<Rightarrow> 'a list" where
  "heap_swap h i j = h[i := h ! j, j := h ! i]"

definition parent :: "nat \<Rightarrow> nat" where
  "parent j = (j - 1) div 2"

function heap_up :: "('a \<Rightarrow> 'a \<Rightarrow> bool) \<Rightarrow> nat \<Rightarrow> 'a list \<Rightarrow> 'a list" where
  "heap_up before j h =
     (let i = parent j in
      if i = j \<or> \<not> before (h ! j) (h ! i) then h else heap_up before i (heap_swap h i j))"
  by auto
termination
  by (relation "measure (\<lambda>(before, j, h). j)") (auto simp: parent_def)

definition least_child :: "('a \<Rightarrow> 'a \<Rightarrow> bool) \<Rightarrow> nat \<Rightarrow> nat \<Rightarrow> 'a list \<Rightarrow> nat" where
  "least_child before i n h =
     (let j1 = 2 * i + 1; j2 = j1 + 1 in
      if j2 < n \<and> before (h ! j2) (h ! j1) then j2 else j1)"

function heap_down :: "('a \<Rightarrow> 'a \<Rightarrow> bool) \<Rightarrow> nat \<Rightarrow> nat \<Rightarrow> 'a list \<Rightarrow> 'a list" where
  "heap_down before i n h =
     (if n \<le> 2 * i + 1 then h
      else
        let j = least_child before i n h in
        if \<not> before (h ! j) (h ! i) then h else heap_down before j n (heap_swap h i j))"
  by auto
termination
  by (relation "measure (\<lambda>(before, i, n, h). n - i)") (auto simp: least_child_def Let_def split: if_splits)

declare heap_up.simps [simp del] heap_down.simps [simp del]

text \<open>\<open>heap.Push\<close> and \<open>heap.Pop\<close>; a pop of an empty heap panics (\<open>None\<close>).\<close>

definition heap_push :: "('a \<Rightarrow> 'a \<Rightarrow> bool) \<Rightarrow> 'a \<Rightarrow> 'a list \<Rightarrow> 'a list" where
  "heap_push before x h = heap_up before (length h) (h @ [x])"

definition heap_pop :: "('a \<Rightarrow> 'a \<Rightarrow> bool) \<Rightarrow> 'a list \<Rightarrow> ('a \<times> 'a list) option" where
  "heap_pop before h =
     (if h = [] then None
      else let n = length h - 1;
               h = heap_down before 0 n (heap_swap h 0 n)
           in Some (last h, butlast h))"

section \<open>The order of the retry heap\<close>

definition msg_less :: "message \<Rightarrow> message \<Rightarrow> bool" where
  "msg_less a b \<longleftrightarrow> sint (next_retry a) < sint (next_retry b)"

definition heap_peek :: "message list \<Rightarrow> message \<times> bool" where
  "heap_peek h = (case h of [] \<Rightarrow> (zero_message, False) | m # _ \<Rightarrow> (m, True))"

section \<open>Structure\<close>

definition heap_ordered :: "('a \<Rightarrow> 'a \<Rightarrow> bool) \<Rightarrow> 'a list \<Rightarrow> bool" where
  "heap_ordered before h \<longleftrightarrow> (\<forall>k < length h. 0 < k \<longrightarrow> \<not> before (h ! k) (h ! parent k))"

lemma parent_less [simp]: "0 < j \<Longrightarrow> parent j < j"
  by (auto simp: parent_def)

lemma parent_eq_self: "parent j = j \<longleftrightarrow> j = 0"
  by (auto simp: parent_def)

lemma parent_iff: "0 < k \<Longrightarrow> parent k = i \<longleftrightarrow> k = 2 * i + 1 \<or> k = 2 * i + 2"
  by (auto simp: parent_def)

lemma length_heap_swap [simp]: "length (heap_swap h i j) = length h"
  by (simp add: heap_swap_def)

lemma heap_swap_nth:
  "i < length h \<Longrightarrow> j < length h \<Longrightarrow>
   heap_swap h i j ! k = (if k = j then h ! i else if k = i then h ! j else h ! k)"
  by (auto simp: heap_swap_def nth_list_update)

lemma mset_heap_swap [simp]:
  "i < length h \<Longrightarrow> j < length h \<Longrightarrow> mset (heap_swap h i j) = mset h"
  by (simp add: heap_swap_def mset_swap)

lemma heap_up_mset: "j < length h \<Longrightarrow> mset (heap_up before j h) = mset h"
proof (induction before j h rule: heap_up.induct)
  case (1 before j h)
  have "parent j < length h" using "1.prems" by (cases "j = 0") (auto simp: parent_def)
  with 1 show ?case by (subst heap_up.simps) (auto simp: Let_def)
qed

lemma least_child_range:
  "2 * i + 1 < n \<Longrightarrow> i < least_child before i n h \<and> least_child before i n h < n \<and>
     parent (least_child before i n h) = i"
  by (auto simp: least_child_def Let_def parent_def)

lemma heap_down_keeps:
  "i < n \<Longrightarrow> n \<le> length h \<Longrightarrow>
   mset (heap_down before i n h) = mset h \<and>
   (\<forall>k \<ge> n. heap_down before i n h ! k = h ! k)"
proof (induction before i n h rule: heap_down.induct)
  case (1 before i n h)
  let ?j = "least_child before i n h"
  show ?case
  proof (cases "n \<le> 2 * i + 1 \<or> \<not> before (h ! ?j) (h ! i)")
    case True
    then show ?thesis by (auto simp: heap_down.simps [of before i n h] Let_def)
  next
    case False
    then have j: "?j < n" using least_child_range [of i n before h] by auto
    have e: "heap_down before i n h = heap_down before ?j n (heap_swap h i ?j)"
      using False by (simp add: heap_down.simps [of before i n h] Let_def)
    have IH: "mset (heap_down before ?j n (heap_swap h i ?j)) = mset (heap_swap h i ?j) \<and>
        (\<forall>k \<ge> n. heap_down before ?j n (heap_swap h i ?j) ! k = heap_swap h i ?j ! k)"
      by (rule "1.IH" [OF _ refl]) (use False j "1.prems" in auto)
    show ?thesis unfolding e using IH j "1.prems" by (simp add: heap_swap_nth)
  qed
qed

lemma heap_down_length: "i < n \<Longrightarrow> n \<le> length h \<Longrightarrow> length (heap_down before i n h) = length h"
  using heap_down_keeps [of i n h before] by (metis size_mset)

section \<open>What the heap promises\<close>

text \<open>
  The documented contract of \<open>heap.Interface\<close>: \<open>Less\<close> is a strict weak ordering.
\<close>

locale heap_order =
  fixes before :: "'a \<Rightarrow> 'a \<Rightarrow> bool"
  assumes asym: "before x y \<Longrightarrow> \<not> before y x"
    and neg_trans: "\<not> before y x \<Longrightarrow> \<not> before z y \<Longrightarrow> \<not> before z x"
begin

text \<open>The order holds everywhere but above \<open>j\<close>, and the children of \<open>j\<close> fit below its parent.\<close>

definition up_inv :: "nat \<Rightarrow> 'a list \<Rightarrow> bool" where
  "up_inv j h \<longleftrightarrow>
     (\<forall>k < length h. 0 < k \<longrightarrow> k \<noteq> j \<longrightarrow> \<not> before (h ! k) (h ! parent k)) \<and>
     (\<forall>k < length h. 0 < k \<longrightarrow> parent k = j \<longrightarrow> 0 < j \<longrightarrow> \<not> before (h ! k) (h ! parent j))"

lemma up_inv_swap:
  assumes inv: "up_inv j h" and j: "j < length h" "0 < j" and less: "before (h ! j) (h ! parent j)"
  shows "up_inv (parent j) (heap_swap h (parent j) j)"
proof -
  let ?i = "parent j" let ?h = "heap_swap h ?i j"
  have i: "?i < j" "?i < length h" using j parent_less [of j] by linarith+
  have nth: "?h ! k = (if k = j then h ! ?i else if k = ?i then h ! j else h ! k)" for k
    using i j by (simp add: heap_swap_nth)
  have edge: "\<not> before (h ! k) (h ! parent k)" if "k < length h" "0 < k" "k \<noteq> j" for k
    using inv that by (simp add: up_inv_def)
  have below: "\<not> before (h ! k) (h ! ?i)" if "k < length h" "0 < k" "parent k = j" for k
    using inv that j by (simp add: up_inv_def)
  have one: "\<not> before (?h ! k) (?h ! parent k)" if k: "k < length h" "0 < k" "k \<noteq> ?i" for k
  proof -
    have pk: "parent k < k" using k by simp
    consider (j) "k = j" | (child) "k \<noteq> j" "parent k = j" | (sibling) "k \<noteq> j" "parent k = ?i"
      | (far) "k \<noteq> j" "parent k \<noteq> j" "parent k \<noteq> ?i" by blast
    then show ?thesis
    proof cases
      case j
      then show ?thesis using asym [OF less] i by (simp add: nth)
    next
      case child
      then show ?thesis using below [of k] k i by (simp add: nth)
    next
      case sibling
      then have "\<not> before (h ! k) (h ! ?i)" using edge [of k] k by simp
      then have "\<not> before (h ! k) (h ! j)" using neg_trans [OF asym [OF less]] by blast
      then show ?thesis using sibling k i by (simp add: nth)
    next
      case far
      then show ?thesis using edge [of k] k by (simp add: nth)
    qed
  qed
  have two: "\<not> before (?h ! k) (?h ! parent ?i)" if k: "k < length h" "0 < k" "parent k = ?i" "0 < ?i" for k
  proof -
    have p: "parent ?i < ?i" using k(4) by simp
    have up: "\<not> before (h ! ?i) (h ! parent ?i)" using edge [of ?i] i k(4) by simp
    show ?thesis
    proof (cases "k = j")
      case True
      then show ?thesis using up p i by (simp add: nth)
    next
      case False
      then have "\<not> before (h ! k) (h ! ?i)" using edge [of k] k by simp
      then have "\<not> before (h ! k) (h ! parent ?i)" using neg_trans [OF up] by blast
      then show ?thesis using False k p i by (auto simp: nth)
    qed
  qed
  show ?thesis using one two unfolding up_inv_def by simp
qed

lemma heap_up_ordered: "up_inv j h \<Longrightarrow> j < length h \<Longrightarrow> heap_ordered before (heap_up before j h)"
proof (induction j arbitrary: h rule: less_induct)
  case (less j)
  show ?case
  proof (cases "parent j = j \<or> \<not> before (h ! j) (h ! parent j)")
    case True
    then have "heap_up before j h = h" by (subst heap_up.simps) (auto simp: Let_def)
    with True less.prems show ?thesis by (auto simp: heap_ordered_def up_inv_def parent_eq_self)
  next
    case False
    then have j: "0 < j" "before (h ! j) (h ! parent j)" by (auto simp: parent_eq_self)
    then have p: "parent j < j" by simp
    have "heap_up before j h = heap_up before (parent j) (heap_swap h (parent j) j)"
      using False by (subst heap_up.simps) (simp add: Let_def)
    moreover have "heap_ordered before (heap_up before (parent j) (heap_swap h (parent j) j))"
      using less.IH [OF p] up_inv_swap [OF less.prems j] less.prems(2) p by simp
    ultimately show ?thesis by simp
  qed
qed

lemma push_ordered: "heap_ordered before h \<Longrightarrow> heap_ordered before (heap_push before x h)"
  unfolding heap_push_def
proof (rule heap_up_ordered)
  assume h: "heap_ordered before h"
  have "parent k < length h" if "k < length h" for k
    using that by (cases "k = 0") (auto simp: parent_def)
  moreover have "parent k \<noteq> length h" if "k < Suc (length h)" "0 < k" for k
    using parent_less [OF that(2)] that(1) by linarith
  ultimately show "up_inv (length h) (h @ [x])"
    using h by (auto simp: up_inv_def heap_ordered_def nth_append less_Suc_eq)
qed simp

lemma push_mset: "mset (heap_push before x h) = add_mset x (mset h)"
  by (simp add: heap_push_def heap_up_mset)

text \<open>The root of an ordered heap is before everything else.\<close>

lemma root_least: "heap_ordered before h \<Longrightarrow> k < length h \<Longrightarrow> \<not> before (h ! k) (h ! 0)"
proof (induction k rule: less_induct)
  case (less k)
  show ?case
  proof (cases "k = 0")
    case True
    then show ?thesis using asym by blast
  next
    case False
    then have p: "parent k < k" by simp
    then have "\<not> before (h ! parent k) (h ! 0)" using less by simp
    moreover have "\<not> before (h ! k) (h ! parent k)" using less.prems False by (simp add: heap_ordered_def)
    ultimately show ?thesis using neg_trans by blast
  qed
qed

end

section \<open>Sifting down\<close>

context heap_order
begin

text \<open>Below \<open>n\<close>, the order holds except under \<open>i\<close>, whose children fit below its parent.\<close>

definition down_inv :: "nat \<Rightarrow> nat \<Rightarrow> 'a list \<Rightarrow> bool" where
  "down_inv i n h \<longleftrightarrow>
     (\<forall>k < n. 0 < k \<longrightarrow> parent k \<noteq> i \<longrightarrow> \<not> before (h ! k) (h ! parent k)) \<and>
     (\<forall>k < n. 0 < k \<longrightarrow> parent k = i \<longrightarrow> 0 < i \<longrightarrow> \<not> before (h ! k) (h ! parent i))"

lemma irrefl: "\<not> before x x"
  using asym by blast

lemma least_child_least:
  assumes "2 * i + 1 < n" "k < n" "0 < k" "parent k = i"
  shows "\<not> before (h ! k) (h ! least_child before i n h)"
proof -
  have "k = 2 * i + 1 \<or> k = 2 * i + 2" using assms by (simp add: parent_iff)
  then show ?thesis using assms(2) asym irrefl by (auto simp: least_child_def Let_def)
qed

lemma down_inv_swap:
  assumes inv: "down_inv i n h" and n: "n \<le> length h" and i: "2 * i + 1 < n"
    and less: "before (h ! least_child before i n h) (h ! i)"
  shows "down_inv (least_child before i n h) n (heap_swap h i (least_child before i n h))"
proof -
  let ?j = "least_child before i n h" let ?h = "heap_swap h i ?j"
  have j: "i < ?j" "?j < n" "parent ?j = i" using least_child_range [OF i] by auto
  have nth: "?h ! k = (if k = ?j then h ! i else if k = i then h ! ?j else h ! k)" for k
    using i j n by (simp add: heap_swap_nth)
  have edge: "\<not> before (h ! k) (h ! parent k)" if "k < n" "0 < k" "parent k \<noteq> i" for k
    using inv that by (simp add: down_inv_def)
  have above: "\<not> before (h ! k) (h ! parent i)" if "k < n" "0 < k" "parent k = i" "0 < i" for k
    using inv that by (simp add: down_inv_def)
  have one: "\<not> before (?h ! k) (?h ! parent k)" if k: "k < n" "0 < k" "parent k \<noteq> ?j" for k
  proof -
    consider (child) "k = ?j" | (sibling) "k \<noteq> ?j" "parent k = i" | (self) "k = i" | (far) "k \<noteq> ?j" "k \<noteq> i" "parent k \<noteq> i"
      by blast
    then show ?thesis
    proof cases
      case child
      have "?h ! k = h ! i" "?h ! parent k = h ! ?j"
        using child j by (simp_all add: nth)
      then show ?thesis using asym [OF less] by simp
    next
      case sibling
      have "k \<noteq> i" using sibling k by (metis parent_less less_irrefl)
      then show ?thesis using least_child_least [OF i k(1,2) sibling(2)] sibling j by (simp add: nth)
    next
      case self
      have p: "parent i < i" using self k by simp
      have "\<not> before (h ! ?j) (h ! parent i)" using above [of ?j] j self k by simp
      then show ?thesis using self p j by (simp add: nth)
    next
      case far
      then show ?thesis using edge [of k] k by (simp add: nth)
    qed
  qed
  have two: "\<not> before (?h ! k) (?h ! parent ?j)" if k: "k < n" "0 < k" "parent k = ?j" for k
  proof -
    have "?j < k" using parent_less [OF k(2)] k(3) by simp
    then show ?thesis using edge [of k] k j by (simp add: nth)
  qed
  show ?thesis using one two unfolding down_inv_def by simp
qed

lemma heap_down_ordered:
  "down_inv i n h \<Longrightarrow> n \<le> length h \<Longrightarrow> k < n \<Longrightarrow> 0 < k \<Longrightarrow>
   \<not> before (heap_down before i n h ! k) (heap_down before i n h ! parent k)"
proof (induction "n - i" arbitrary: i h rule: less_induct)
  case less
  let ?j = "least_child before i n h"
  show ?case
  proof (cases "n \<le> 2 * i + 1 \<or> \<not> before (h ! ?j) (h ! i)")
    case True
    then have e: "heap_down before i n h = h"
      by (auto simp: heap_down.simps [of before i n h] Let_def)
    have "\<not> before (h ! k) (h ! i)" if p: "parent k = i"
    proof -
      have "2 * i + 1 < n" using p less.prems(3,4) by (auto simp: parent_def)
      then show ?thesis
        using True neg_trans least_child_least [OF _ less.prems(3,4) p] by (meson not_le)
    qed
    then show ?thesis using e less.prems by (cases "parent k = i") (auto simp: down_inv_def)
  next
    case False
    then have i: "2 * i + 1 < n" and before: "before (h ! ?j) (h ! i)" by auto
    have e: "heap_down before i n h = heap_down before ?j n (heap_swap h i ?j)"
      using False by (simp add: heap_down.simps [of before i n h] Let_def)
    have "n - ?j < n - i" using least_child_range [OF i, of before h] by linarith
    then show ?thesis unfolding e
      using less.hyps [of ?j "heap_swap h i ?j"] down_inv_swap [OF less.prems(1,2) i before] less.prems
      by simp
  qed
qed

text \<open>A pop takes the root out and leaves an ordered heap of the rest.\<close>

lemma pop_spec:
  assumes h: "heap_ordered before h" and pop: "heap_pop before h = Some (x, h')"
  shows "x = h ! 0 \<and> h \<noteq> [] \<and> heap_ordered before h' \<and> mset h = add_mset x (mset h')"
proof -
  let ?n = "length h - 1" let ?s = "heap_swap h 0 ?n" let ?d = "heap_down before 0 ?n ?s"
  have ne: "h \<noteq> []" using pop by (auto simp: heap_pop_def)
  then have len: "0 < length h" by simp
  have x: "x = last ?d" "h' = butlast ?d" using pop ne by (auto simp: heap_pop_def Let_def)
  have d: "mset ?d = mset ?s" "length ?d = length h" "?d ! ?n = ?s ! ?n"
  proof -
    have "?n = 0 \<Longrightarrow> ?d = ?s" by (simp add: heap_down.simps)
    moreover have "0 < ?n \<Longrightarrow> mset ?d = mset ?s \<and> ?d ! ?n = ?s ! ?n"
      using heap_down_keeps [of 0 ?n ?s before] by simp
    ultimately show "mset ?d = mset ?s" "?d ! ?n = ?s ! ?n" by (cases "?n = 0"; simp)+
    then show "length ?d = length h" by (metis length_heap_swap size_mset)
  qed
  have dne: "?d \<noteq> []" using d(2) len by auto
  have x0: "x = h ! 0"
    using x dne d len by (simp add: last_conv_nth heap_swap_nth)
  have "mset h = mset ?d" using d(1) len by simp
  also have "\<dots> = mset (butlast ?d @ [last ?d])"
    by (simp only: append_butlast_last_id [OF dne])
  also have "\<dots> = add_mset x (mset h')" by (simp add: x)
  finally have m: "mset h = add_mset x (mset h')" .
  have p: "parent k < k" if "0 < k" for k using that by simp
  have "down_inv 0 ?n ?s"
    unfolding down_inv_def
  proof (intro conjI allI impI)
    fix k assume k: "k < ?n" "0 < k" "parent k \<noteq> 0"
    have "\<not> before (h ! k) (h ! parent k)" using h k by (simp add: heap_ordered_def)
    moreover have "?s ! k = h ! k" "?s ! parent k = h ! parent k"
      using k p [OF k(2)] len by (simp_all add: heap_swap_nth)
    ultimately show "\<not> before (?s ! k) (?s ! parent k)" by simp
  qed simp
  then have "\<not> before (?d ! k) (?d ! parent k)" if "k < ?n" "0 < k" for k
    using heap_down_ordered [of 0 ?n ?s k] that by simp
  moreover have "h' ! k = ?d ! k" if "k < ?n" for k
    using that d(2) by (simp add: x nth_butlast)
  moreover have "length h' = ?n" using d(2) by (simp add: x)
  moreover have "parent k < ?n" if "k < ?n" "0 < k" for k
    using p [OF that(2)] that(1) by linarith
  ultimately have "heap_ordered before h'"
    by (auto simp: heap_ordered_def)
  with x0 ne m show ?thesis by simp
qed

lemma pop_least:
  assumes "heap_ordered before h" "heap_pop before h = Some (x, h')" "y \<in> set h"
  shows "\<not> before y x"
  using root_least [OF assms(1)] pop_spec [OF assms(1,2)] assms(3) by (auto simp: in_set_conv_nth)

lemma pop_Some: "h \<noteq> [] \<Longrightarrow> \<exists>x h'. heap_pop before h = Some (x, h')"
  by (simp add: heap_pop_def Let_def)

end

interpretation retry: heap_order msg_less
  by unfold_locales (auto simp: msg_less_def)

section \<open>Draining\<close>

text \<open>Popping until the heap is empty.\<close>

primrec heap_pops :: "('a \<Rightarrow> 'a \<Rightarrow> bool) \<Rightarrow> nat \<Rightarrow> 'a list \<Rightarrow> 'a list" where
  "heap_pops before 0 h = []"
| "heap_pops before (Suc n) h =
     (case heap_pop before h of None \<Rightarrow> [] | Some (x, h') \<Rightarrow> x # heap_pops before n h')"

lemma heap_pops_sorted:
  "heap_ordered msg_less h \<Longrightarrow>
   mset (heap_pops msg_less (length h) h) = mset h \<and>
   sorted (map (\<lambda>m. sint (next_retry m)) (heap_pops msg_less (length h) h))"
proof (induction "length h" arbitrary: h)
  case 0
  then show ?case by simp
next
  case (Suc n)
  then obtain x h' where pop: "heap_pop msg_less h = Some (x, h')"
    using retry.pop_Some [of h] by (metis length_0_conv nat.distinct(1))
  note spec = retry.pop_spec [OF Suc.prems pop]
  have n: "length h' = n" using spec Suc.hyps(2) by (metis Suc_inject size_add_mset size_mset)
  have IH: "mset (heap_pops msg_less n h') = mset h'"
    "sorted (map (\<lambda>m. sint (next_retry m)) (heap_pops msg_less n h'))"
    using Suc.hyps(1) [of h'] n spec by auto
  have "sint (next_retry x) \<le> sint (next_retry y)" if "y \<in> set (heap_pops msg_less n h')" for y
  proof -
    have "y \<in> set h" using that IH(1) spec by (metis insert_iff set_mset_add_mset_insert set_mset_mset)
    then have "\<not> msg_less y x" by (rule retry.pop_least [OF Suc.prems pop])
    then show ?thesis by (simp add: msg_less_def)
  qed
  then show ?case using IH spec pop by (simp flip: Suc.hyps(2))
qed

lemma heap_ordered_pushes:
  "heap_ordered msg_less h \<Longrightarrow> heap_ordered msg_less (fold (heap_push msg_less) ms h)"
  by (induction ms arbitrary: h) (simp_all add: retry.push_ordered)

lemma mset_pushes: "mset (fold (heap_push msg_less) ms h) = mset ms + mset h"
  by (induction ms arbitrary: h) (simp_all add: retry.push_mset)

lemma heap_ordered_Nil [simp]: "heap_ordered before []"
  by (simp add: heap_ordered_def)

lemma heap_peek_root: "h \<noteq> [] \<Longrightarrow> heap_peek h = (h ! 0, True)"
  by (cases h) (simp_all add: heap_peek_def)

section \<open>Properties\<close>

text \<open>
  C19: the retry heap sorts.  Whatever messages are pushed, in whatever order, popping them all
  returns each exactly once, in the order of their retry times (as signed 64-bit seconds).
\<close>

theorem retry_heap_sorts:
  "mset (heap_pops msg_less (length ms) (fold (heap_push msg_less) ms [])) = mset ms \<and>
   sorted (map (\<lambda>m. sint (next_retry m))
     (heap_pops msg_less (length ms) (fold (heap_push msg_less) ms [])))"
proof -
  have "length (fold (heap_push msg_less) ms []) = length ms"
    using mset_pushes [of ms "[]"] by (metis add.right_neutral mset.simps(1) size_mset)
  then show ?thesis
    using heap_pops_sorted [OF heap_ordered_pushes [OF heap_ordered_Nil]] mset_pushes [of ms "[]"]
    by (metis add.right_neutral mset.simps(1))
qed

text \<open>
  C29: \<open>Peek\<close> and \<open>Pop\<close> agree on the soonest message.  On an ordered non-empty heap the
  peeked message is the one the pop returns, no message of the heap is due before it, and the
  rest is an ordered heap without it.
\<close>

theorem retry_heap_pop:
  assumes "heap_ordered msg_less h" "h \<noteq> []"
  shows "\<exists>m h'. heap_pop msg_less h = Some (m, h') \<and> heap_peek h = (m, True) \<and>
    (\<forall>x \<in> set h. sint (next_retry m) \<le> sint (next_retry x)) \<and>
    heap_ordered msg_less h' \<and> mset h = add_mset m (mset h')"
proof -
  obtain m h' where pop: "heap_pop msg_less h = Some (m, h')"
    using retry.pop_Some [OF assms(2)] by blast
  show ?thesis
    using pop retry.pop_spec [OF assms(1) pop] retry.pop_least [OF assms(1) pop] heap_peek_root
    by (fastforce simp: msg_less_def)
qed

definition retry_at :: "string \<Rightarrow> int64 \<Rightarrow> message" where
  "retry_at i t = zero_message\<lparr>msg_id := i, next_retry := t\<rparr>"

lemma retry_heap_pop_witness:
  "\<exists>h'. heap_pop msg_less (fold (heap_push msg_less) [retry_at ''a'' 30, retry_at ''b'' 10, retry_at ''c'' 20] [])
     = Some (retry_at ''b'' 10, h')"
proof -
  let ?h = "fold (heap_push msg_less) [retry_at ''a'' 30, retry_at ''b'' 10, retry_at ''c'' 20] []"
  have "?h \<noteq> []" "heap_peek ?h = (retry_at ''b'' 10, True)" by code_simp+
  with retry_heap_pop [OF heap_ordered_pushes [OF heap_ordered_Nil], of "[retry_at ''a'' 30, retry_at ''b'' 10, retry_at ''c'' 20]"]
  show ?thesis by auto
qed

end
