(* ===== verification/Dispatcher.thy ===== *)
theory Dispatcher
  imports Delivery Retry_Heap Broker_Facts
begin

text \<open>
  \<open>pkg/broker/dispatcher.go\<close>: the record and one definition per method.  Every reading of
  the clock, every order in which a map is ranged over and every answer of the network is an
  argument.  The goroutines (event loop, workers, background saves) are put together in
  \<open>Dispatch_Runs\<close>.
\<close>

section \<open>State\<close>

text \<open>
  \<open>in_progress\<close> is the set of keys of the \<open>sync.Map\<close>; \<open>retry_timer\<close> is the instant the
  timer fires, \<open>None\<close> once it has; \<open>save_jobs\<close> are the background saves that have been
  started and have not run yet.
\<close>

record 's dispatcher =
  d_cfg :: config
  d_cb :: circuit_breaker
  d_targets :: "(string \<times> target_config) list"
  d_storage :: "'s option"
  task_chan :: "message chan"
  d_listeners :: "unit chan list"
  in_progress :: "string list"
  retry_heap :: "message list"
  retry_timer :: "time option"
  save_jobs :: "target_config list"

definition put_targets ::
  "target_config list \<Rightarrow> (string \<times> target_config) list \<Rightarrow> (string \<times> target_config) list" where
  "put_targets tcs m = fold (\<lambda>tc. AList.update (tc_name tc) tc) tcs m"

definition one_hour :: int where "one_hour = 3600 * nanos_per_second"

definition new_dispatcher :: "time \<Rightarrow> config \<Rightarrow> circuit_breaker \<Rightarrow> 's option \<Rightarrow> 's dispatcher" where
  "new_dispatcher now cfg breaker s =
     \<lparr>d_cfg = cfg, d_cb = breaker, d_targets = put_targets (cfg_targets cfg) [],
      d_storage = s, task_chan = make_chan 100, d_listeners = [], in_progress = [],
      retry_heap = [], retry_timer = Some (now + one_hour), save_jobs = []\<rparr>"

section \<open>Targets\<close>

definition d_notify :: "'s dispatcher \<Rightarrow> 's dispatcher" where
  "d_notify d = d\<lparr>d_listeners := map (send_or_drop ()) (d_listeners d)\<rparr>"

definition d_subscribe :: "'s dispatcher \<Rightarrow> nat \<times> 's dispatcher" where
  "d_subscribe d = (length (d_listeners d), d\<lparr>d_listeners := d_listeners d @ [make_chan 1]\<rparr>)"

text \<open>The map at once, the storage in a goroutine of its own.\<close>

definition add_target :: "target_config \<Rightarrow> 's dispatcher \<Rightarrow> 's dispatcher" where
  "add_target tc d =
     (let d = d\<lparr>d_targets := AList.update (tc_name tc) tc (d_targets d)\<rparr>;
          d = d_notify d
      in if d_storage d \<noteq> None then d\<lparr>save_jobs := save_jobs d @ [tc]\<rparr> else d)"

text \<open>One of the background saves runs (its error is only printed).\<close>

definition run_save_job ::
  "(target_config \<Rightarrow> 's \<Rightarrow> go_error option \<times> 's) \<Rightarrow> nat \<Rightarrow> 's dispatcher \<Rightarrow> 's dispatcher" where
  "run_save_job save i d =
     (if i < length (save_jobs d) then
        (case d_storage d of
           None \<Rightarrow> d
         | Some s \<Rightarrow>
             d\<lparr>d_storage := Some (snd (save (save_jobs d ! i) s)),
               save_jobs := take i (save_jobs d) @ drop (Suc i) (save_jobs d)\<rparr>)
      else d)"

definition get_targets :: "string list \<Rightarrow> 's dispatcher \<Rightarrow> target_config list" where
  "get_targets order d = List.map_filter (map_of (d_targets d)) order"

section \<open>Scheduling retries\<close>

text \<open>\<open>timer.Reset\<close> with a duration that may have wrapped: a negative one fires at once.\<close>

definition timer_at :: "time \<Rightarrow> int64 \<Rightarrow> time" where
  "timer_at now wait = now + max 0 (sint (seconds wait))"

definition schedule_retry :: "time \<Rightarrow> message \<Rightarrow> 's dispatcher \<Rightarrow> 's dispatcher" where
  "schedule_retry now msg d =
     (let d = d\<lparr>retry_heap := heap_push msg_less msg (retry_heap d)\<rparr>;
          soonest = fst (heap_peek (retry_heap d))
      in if msg_id soonest = msg_id msg then
           (let wait = next_retry msg - unix now;
                wait = (if sint wait < 0 then 0 else wait)
            in d\<lparr>retry_timer := Some (timer_at now wait)\<rparr>)
         else d)"

text \<open>
  One turn of the loop of \<open>processRetryHeap\<close> with the second \<open>now\<close> read before the loop;
  \<open>t\<close> is the clock during the turn.  The flag says whether the loop goes on.
\<close>

definition retry_turn :: "int64 \<Rightarrow> time \<Rightarrow> 's dispatcher \<Rightarrow> bool \<times> 's dispatcher" where
  "retry_turn now t d =
     (case heap_peek (retry_heap d) of
        (soonest, False) \<Rightarrow> (False, d)
      | (soonest, True) \<Rightarrow>
          if sint (next_retry soonest) \<le> sint now then
            (case heap_pop msg_less (retry_heap d) of
               None \<Rightarrow> (False, d)
             | Some (msg, h) \<Rightarrow>
                 let d = d\<lparr>retry_heap := h\<rparr> in
                 (case try_send msg (task_chan d) of
                    (True, c) \<Rightarrow> (True, d\<lparr>task_chan := c\<rparr>)
                  | (False, c) \<Rightarrow> (True, schedule_retry t msg d)))
          else (False, d\<lparr>retry_timer := Some (timer_at t (next_retry soonest - now))\<rparr>))"

section \<open>Filling the task channel at start\<close>

definition offer_ready :: "int64 \<Rightarrow> message \<Rightarrow> 's dispatcher \<Rightarrow> 's dispatcher" where
  "offer_ready now msg d =
     (if sint (next_retry msg) \<le> sint now \<and> msg_id msg \<notin> set (in_progress d) then
        let d = d\<lparr>in_progress := msg_id msg # in_progress d\<rparr> in
        (case try_send msg (task_chan d) of
           (True, c) \<Rightarrow> d\<lparr>task_chan := c\<rparr>
         | (False, c) \<Rightarrow> d\<lparr>in_progress := removeAll (msg_id msg) (in_progress d)\<rparr>)
      else d)"

definition fill_task_queue :: "time \<Rightarrow> message list \<Rightarrow> 's dispatcher \<Rightarrow> 's dispatcher" where
  "fill_task_queue now msgs d = fold (offer_ready (unix now)) msgs d"

text \<open>
  \<open>Start\<close> up to its loop: the stored targets, the gauge of workers, the messages on hand
  (\<open>q\<close> is the queue as \<open>All\<close> sees it at each index), the subscription.
\<close>

definition load_targets ::
  "('s \<Rightarrow> go_error + target_config list) \<Rightarrow> 's dispatcher \<Rightarrow> 's dispatcher" where
  "load_targets load d =
     (case d_storage d of
        None \<Rightarrow> d
      | Some s \<Rightarrow>
          (case load s of Inl e \<Rightarrow> d | Inr tcs \<Rightarrow> d\<lparr>d_targets := put_targets tcs (d_targets d)\<rparr>))"

definition worker_count :: "config \<Rightarrow> int" where
  "worker_count cfg = (if cfg_worker_count cfg \<le> 0 then 1 else cfg_worker_count cfg)"

definition start_dispatcher ::
  "('s \<Rightarrow> go_error + target_config list) \<Rightarrow> time \<Rightarrow> (nat \<Rightarrow> message list) \<Rightarrow> 's dispatcher \<Rightarrow> bw
     \<Rightarrow> nat \<times> 's dispatcher \<times> bw" where
  "start_dispatcher load now q d bw =
     (case bw of (b, w) \<Rightarrow>
       let d = load_targets load d;
           w = set_active_workers (worker_count (d_cfg d)) w;
           d = fill_task_queue now (all_messages b q) d;
           (sub, b) = subscribe_messages b
       in (sub, d, b, w))"

section \<open>Delivering a message\<close>

text \<open>One attempt: the clock around the breaker's critical sections, the header order, the answers.\<close>

record attempt =
  at_start :: time
  at_end :: time
  at_order :: "string list"
  at_net :: network

text \<open>
  The targets in turn, each behind the breaker, until one succeeds: whether one did, the last
  error, and the breaker.
\<close>

fun try_targets ::
  "message \<Rightarrow> (target_config \<times> attempt) list \<Rightarrow> go_error option \<Rightarrow> circuit_breaker
     \<Rightarrow> bool \<times> go_error option \<times> circuit_breaker" where
  "try_targets msg [] lastErr breaker = (False, lastErr, breaker)"
| "try_targets msg ((tc, a) # rest) lastErr breaker =
     (case cb_execute (at_start a) (at_end a)
             (\<lambda>u. (send_to_target (at_order a) (at_net a) tc msg, u)) breaker () of
        (None, breaker, _) \<Rightarrow> (True, None, breaker)
      | (Some e, breaker, _) \<Rightarrow> try_targets msg rest (Some e) breaker)"

definition choose_targets :: "message \<Rightarrow> target_config list \<Rightarrow> target_config list" where
  "choose_targets msg allTargets =
     (if target msg \<noteq> '''' then
        (let targets = filter (\<lambda>t. tc_name t = target msg) allTargets
         in if targets = [] then allTargets else targets)
      else allTargets)"

text \<open>
  \<open>int64(math.Pow(2, float64(n)))\<close>: exact up to \<open>n = 62\<close>; beyond that the float is out of
  range and the conversion gives the smallest integer (amd64).
\<close>

definition pow2_int64 :: "int64 \<Rightarrow> int64" where
  "pow2_int64 n =
     (if sint n < 0 then 0
      else if sint n \<le> 62 then 2 ^ nat (sint n)
      else word_of_int min_int64)"

definition backoff_seconds :: "int64 \<Rightarrow> int64 \<Rightarrow> int64" where
  "backoff_seconds base retries = base * pow2_int64 retries"

definition handle_failure ::
  "time \<Rightarrow> time \<Rightarrow> message \<Rightarrow> 's dispatcher \<times> bw \<Rightarrow> 's dispatcher \<times> bw" where
  "handle_failure now sched msg s =
     (case s of (d, b, w) \<Rightarrow>
       if sint (cfg_max_retries (d_cfg d)) \<le> sint (retry_count msg) then
         (d, snd (move_to_dlq (msg_id msg) (b, inc_failed ''max_retries'' w)))
       else
         (let w = inc_failed ''retry'' w;
              msg = msg\<lparr>retry_count := retry_count msg + 1\<rparr>;
              backoff = backoff_seconds (cfg_base_interval (d_cfg d)) (retry_count msg);
              msg = msg\<lparr>next_retry := unix now + backoff\<rparr>;
              bw = snd (update_message msg (b, w))
          in (schedule_retry sched msg d, bw)))"

text \<open>
  What \<open>processMessage\<close> meets: the order in which the targets come out of their map, one
  attempt for each target tried, the clock at the start and at the end of the delivery, for
  the retry time and for the timer.
\<close>

record process_env =
  pe_targets :: "string list"
  pe_attempts :: "attempt list"
  pe_start :: time
  pe_done :: time
  pe_now :: time
  pe_sched :: time

definition process_message ::
  "process_env \<Rightarrow> message \<Rightarrow> 's dispatcher \<times> bw \<Rightarrow> 's dispatcher \<times> bw" where
  "process_message env msg s =
     (case s of (d, b, w) \<Rightarrow>
       let allTargets = get_targets (pe_targets env) d in
       if allTargets = [] then (d, b, w)
       else
         (let targets = choose_targets msg allTargets in
          case try_targets msg (zip targets (pe_attempts env)) None (d_cb d) of
            (True, _, breaker) \<Rightarrow>
              (let d = d\<lparr>d_cb := breaker\<rparr>;
                   w = observe_latency (pe_done env - pe_start env) w;
                   w = inc_dispatched w
               in (d, snd (acknowledge (msg_id msg) (b, w))))
          | (False, _, breaker) \<Rightarrow>
              handle_failure (pe_now env) (pe_sched env) msg (d\<lparr>d_cb := breaker\<rparr>, b, w)))"

text \<open>The environment has an attempt for every target.\<close>

definition env_ok :: "process_env \<Rightarrow> 's dispatcher \<Rightarrow> bool" where
  "env_ok env d \<longleftrightarrow> distinct (pe_targets env) \<and> set (pe_targets env) = dom (map_of (d_targets d)) \<and>
     length (pe_targets env) \<le> length (pe_attempts env)"

text \<open>What a worker does after \<open>processMessage\<close>.\<close>

definition release :: "message \<Rightarrow> 's dispatcher \<Rightarrow> 's dispatcher" where
  "release msg d = d\<lparr>in_progress := removeAll (msg_id msg) (in_progress d)\<rparr>"

section \<open>Operation by the API\<close>

definition d_reset :: "time \<Rightarrow> 's dispatcher \<Rightarrow> 's dispatcher" where
  "d_reset now d = d\<lparr>d_cb := cb_reset now (d_cb d), in_progress := []\<rparr>"

definition d_get_cb_state :: "'s dispatcher \<Rightarrow> string" where
  "d_get_cb_state d = get_state (d_cb d)"

definition d_get_cb_metrics :: "'s dispatcher \<Rightarrow> int \<times> int" where
  "d_get_cb_metrics d = get_metrics (d_cb d)"

definition d_reset_config :: "time \<Rightarrow> int \<Rightarrow> int64 \<Rightarrow> 's dispatcher \<Rightarrow> 's dispatcher" where
  "d_reset_config now threshold timeout d = d\<lparr>d_cb := cb_reset_config now threshold timeout (d_cb d)\<rparr>"

end
