(* ===== verification/Dispatcher_Facts.thy ===== *)
theory Dispatcher_Facts
  imports Dispatcher Lease_Queue
begin

text \<open>
  What the dispatcher does with one message: when it acknowledges, how it backs off, how often
  it tries; and what its targets and their storage hold.
\<close>

section \<open>Frames\<close>

lemma schedule_retry_frame [simp]:
  "d_cfg (schedule_retry t m d) = d_cfg d" "d_cb (schedule_retry t m d) = d_cb d"
  "d_targets (schedule_retry t m d) = d_targets d" "d_storage (schedule_retry t m d) = d_storage d"
  "task_chan (schedule_retry t m d) = task_chan d" "d_listeners (schedule_retry t m d) = d_listeners d"
  "in_progress (schedule_retry t m d) = in_progress d"
  "retry_heap (schedule_retry t m d) = heap_push msg_less m (retry_heap d)"
  "save_jobs (schedule_retry t m d) = save_jobs d"
  by (simp_all add: schedule_retry_def Let_def)

lemma release_frame [simp]:
  "task_chan (release m d) = task_chan d" "retry_heap (release m d) = retry_heap d"
  "retry_timer (release m d) = retry_timer d" "d_cfg (release m d) = d_cfg d"
  "d_targets (release m d) = d_targets d" "d_cb (release m d) = d_cb d"
  by (simp_all add: release_def)

lemma set_heap_push [simp]: "set (heap_push msg_less m h) = insert m (set h)"
  by (metis retry.push_mset set_mset_add_mset_insert set_mset_mset)

section \<open>Acceptance\<close>

text \<open>A delivery that succeeds has been accepted by one of the targets tried.\<close>

lemma try_targets_accepted:
  "try_targets msg tas e breaker = (True, r, breaker') \<Longrightarrow>
   \<exists>(tc, a) \<in> set tas. send_to_target (at_order a) (at_net a) tc msg = None"
proof (induction msg tas e breaker rule: try_targets.induct)
  case (2 msg tc a rest lastErr breaker)
  obtain r1 c u where ex: "cb_execute (at_start a) (at_end a)
      (\<lambda>u. (send_to_target (at_order a) (at_net a) tc msg, u)) breaker () = (r1, c, u)"
    by (metis prod_cases3)
  show ?case
  proof (cases r1)
    case None
    with ex have "send_to_target (at_order a) (at_net a) tc msg = None"
      by (auto dest: breaker.exec_success)
    then show ?thesis by auto
  next
    case (Some e)
    with 2 ex show ?thesis by fastforce
  qed
qed simp

lemma process_message_cases:
  assumes "process_message env msg (d, b, w) = (d', b', w')"
  obtains (idle) "get_targets (pe_targets env) d = []" "d' = d" "b' = b" "w' = w"
  | (delivered) r breaker w1 where
      "try_targets msg (zip (choose_targets msg (get_targets (pe_targets env) d)) (pe_attempts env))
         None (d_cb d) = (True, r, breaker)"
      "d' = d\<lparr>d_cb := breaker\<rparr>" "wdisk w1 = wdisk w"
      "messages_dispatched (wmetrics w1) = messages_dispatched (wmetrics w) + 1"
      "(b', w') = snd (acknowledge (msg_id msg) (b, w1))"
  | (failed) r breaker where
      "try_targets msg (zip (choose_targets msg (get_targets (pe_targets env) d)) (pe_attempts env))
         None (d_cb d) = (False, r, breaker)"
      "handle_failure (pe_now env) (pe_sched env) msg (d\<lparr>d_cb := breaker\<rparr>, b, w) = (d', b', w')"
proof (cases "get_targets (pe_targets env) d = []")
  case True
  with assms show ?thesis by (intro idle) (auto simp: process_message_def)
next
  case False
  obtain ok r breaker where tr: "try_targets msg
      (zip (choose_targets msg (get_targets (pe_targets env) d)) (pe_attempts env))
      None (d_cb d) = (ok, r, breaker)" by (metis prod_cases3)
  show ?thesis
  proof (cases ok)
    case True
    let ?w1 = "inc_dispatched (observe_latency (pe_done env - pe_start env) w)"
    show ?thesis
    proof (rule delivered)
      show "(b', w') = snd (acknowledge (msg_id msg) (b, ?w1))"
        using assms False tr True by (auto simp: process_message_def Let_def)
      show "d' = d\<lparr>d_cb := breaker\<rparr>"
        using assms False tr True by (auto simp: process_message_def Let_def)
    qed (use tr True in \<open>auto simp: inc_dispatched_def observe_latency_def\<close>)
  next
    case f: False
    show ?thesis
      by (rule failed) (use assms False tr f in \<open>auto simp: process_message_def Let_def\<close>)
  qed
qed

section \<open>Failures\<close>

lemma handle_failure_cases:
  assumes "handle_failure now sched msg (d, b, w) = (d', b', w')"
  obtains (buried) "sint (cfg_max_retries (d_cfg d)) \<le> sint (retry_count msg)" "d' = d"
      "(b', w') = snd (move_to_dlq (msg_id msg) (b, inc_failed ''max_retries'' w))"
  | (retried) msg' where "sint (retry_count msg) < sint (cfg_max_retries (d_cfg d))"
      "msg' = msg\<lparr>retry_count := retry_count msg + 1,
         next_retry := unix now +
           backoff_seconds (cfg_base_interval (d_cfg d)) (retry_count msg + 1)\<rparr>"
      "d' = schedule_retry sched msg' d"
      "(b', w') = snd (update_message msg' (b, inc_failed ''retry'' w))"
  using assms by (auto simp: handle_failure_def Let_def split: if_splits)

lemma sint_pow2: "n \<le> 62 \<Longrightarrow> sint (2 ^ n :: int64) = 2 ^ n"
proof -
  assume n: "n \<le> 62"
  have "(2 :: int) ^ n \<le> 2 ^ 62" using n by (intro power_increasing) auto
  then have "(2 :: int) ^ n \<le> 4611686018427387904" by simp
  moreover have "(0 :: int) \<le> 2 ^ n" by simp
  ultimately have "in_int64 (2 ^ n)" unfolding int64_bounds by (intro conjI) linarith+
  moreover have "(2 ^ n :: int64) = word_of_int (2 ^ n)" by simp
  ultimately show ?thesis by (metis sint_int64_of_int)
qed

lemma sint_pow2_int64: "0 \<le> sint n \<Longrightarrow> sint n \<le> 62 \<Longrightarrow> sint (pow2_int64 n) = 2 ^ nat (sint n)"
  by (simp add: pow2_int64_def sint_pow2)

lemma sint_backoff:
  "0 \<le> sint n \<Longrightarrow> sint n \<le> 62 \<Longrightarrow> in_int64 (sint base * 2 ^ nat (sint n)) \<Longrightarrow>
   sint (backoff_seconds base n) = sint base * 2 ^ nat (sint n)"
  using sint_mult_int64 [of base "pow2_int64 n"] by (simp add: backoff_seconds_def sint_pow2_int64)

lemma find_replace_first:
  "msg_id m \<in> msg_id ` set ms \<Longrightarrow> find_message (msg_id m) (replace_first m ms) = Some m"
  by (induction ms) (auto simp: find_message_def)

lemma find_message_SomeI: "i \<in> msg_id ` set ms \<Longrightarrow> \<exists>m. find_message i ms = Some m"
  using find_message_None [of i ms] by (cases "find_message i ms") (auto simp del: find_message_None)

lemma sint_inc: "sint (n :: int64) < sint (k :: int64) \<Longrightarrow> sint (n + 1) = sint n + 1"
proof -
  assume "sint n < sint k"
  then have "in_int64 (sint n + 1)"
    using in_int64_sint [of n] in_int64_sint [of k] by (simp add: int64_bounds)
  then show ?thesis using sint_add_int64 [of n 1] by simp
qed


lemma on_disk_metrics: "on_disk f w = (r, w') \<Longrightarrow> wmetrics w' = wmetrics w"
  by (auto simp: on_disk_eq)

lemma move_to_dlq_dispatched:
  "move_to_dlq i (b, w) = (r, b', w') \<Longrightarrow>
   messages_dispatched (wmetrics w') = messages_dispatched (wmetrics w)"
  by (auto simp: move_to_dlq_def dlq_memory_def set_queue_size_def Let_def
      split: option.splits prod.splits sum.splits dest!: on_disk_metrics)

lemma update_message_dispatched:
  "update_message m (b, w) = (r, b', w') \<Longrightarrow>
   messages_dispatched (wmetrics w') = messages_dispatched (wmetrics w)"
  by (auto simp: update_message_def Let_def split: prod.splits if_splits dest!: on_disk_metrics)

section \<open>Properties\<close>


section \<open>An example dispatcher\<close>

definition demo_config :: config where
  "demo_config = \<lparr>cfg_host = ''localhost'', cfg_port = 8080, cfg_http_port = 8081, cfg_grpc_port = 9,
     cfg_storage_path = ''./data/messages'', cfg_dead_letter_path = ''./data/dead_letter'',
     cfg_max_queue_size = 0, cfg_ack_timeout_seconds = 300, cfg_threshold = 3,
     cfg_timeout_seconds = 5, cfg_targets = [sample_target], cfg_max_retries = 2,
     cfg_base_interval = 2, cfg_worker_count = 1, cfg_rate_limit_rps = 0, cfg_rate_limit_burst = 0,
     cfg_max_payload_size = 0, cfg_allowed_domains = []\<rparr>"

definition demo_dispatcher :: "(string \<times> string \<times> string option) list dispatcher" where
  "demo_dispatcher = new_dispatcher 0 demo_config
     (new_circuit_breaker ''Network'' 3 5000000000 '''' True) (Some [])"

text \<open>A network that gives one answer to everything.\<close>

definition steady_network :: "int \<Rightarrow> network" where
  "steady_network status =
     \<lparr>net_url = (\<lambda>_. None), net_http = (\<lambda>_. Inr status), net_dial = (\<lambda>_. None),
      net_deliver = (\<lambda>_ _ _. Inr ''SUCCESS'')\<rparr>"

definition demo_env :: "int \<Rightarrow> time \<Rightarrow> process_env" where
  "demo_env status t =
     \<lparr>pe_targets = [''billing''],
      pe_attempts = [\<lparr>at_start = t, at_end = t + 1,
        at_order = [''Authorization'', ''X-Message-ID''], at_net = steady_network status\<rparr>],
      pe_start = t, pe_done = t + 2, pe_now = t + 3, pe_sched = t + 4\<rparr>"


text \<open>
  C12: exponential backoff.  A failed delivery below the retry limit counts one more attempt and
  puts the retry exactly \<open>base * 2 ^ attempts\<close> seconds after the current second, as long as
  these numbers fit in 64 bits; the new version is what the queue holds and what the retry
  heap is given.
\<close>

theorem backoff_doubles:
  assumes "handle_failure now sched msg (d, b, w) = (d', b', w')"
    "0 \<le> sint (retry_count msg)" "sint (retry_count msg) < sint (cfg_max_retries (d_cfg d))"
    "sint (retry_count msg) < 62" "msg_id msg \<in> msg_id ` set (messages b)"
    "in_int64 (now div nanos_per_second)"
    "in_int64 (sint (cfg_base_interval (d_cfg d)) * 2 ^ nat (sint (retry_count msg) + 1))"
    "in_int64 (now div nanos_per_second +
       sint (cfg_base_interval (d_cfg d)) * 2 ^ nat (sint (retry_count msg) + 1))"
  shows "\<exists>msg'. find_message (msg_id msg) (messages b') = Some msg' \<and>
    mset (retry_heap d') = add_mset msg' (mset (retry_heap d)) \<and>
    sint (retry_count msg') = sint (retry_count msg) + 1 \<and>
    sint (next_retry msg') = now div nanos_per_second +
      sint (cfg_base_interval (d_cfg d)) * 2 ^ nat (sint (retry_count msg) + 1) \<and>
    payload msg' = payload msg"
  using assms(1)
proof (cases rule: handle_failure_cases)
  case buried
  with assms(3) show ?thesis by simp
next
  case (retried msg')
  let ?n = "retry_count msg + 1" let ?base = "cfg_base_interval (d_cfg d)"
  have n: "sint ?n = sint (retry_count msg) + 1" using sint_inc [OF retried(1)] .
  have wait: "sint (backoff_seconds ?base ?n) = sint ?base * 2 ^ nat (sint (retry_count msg) + 1)"
    using sint_backoff [of ?n ?base] assms(2,4,7) n by simp
  have nextr: "sint (next_retry msg') = now div nanos_per_second +
      sint ?base * 2 ^ nat (sint (retry_count msg) + 1)"
    using sint_add_int64 [of "unix now" "backoff_seconds ?base ?n"] assms(6,8) wait
    by (simp add: retried(2) sint_unix)
  have id: "msg_id msg' = msg_id msg" by (simp add: retried(2))
  obtain r b1 w1 where up: "update_message msg' (b, inc_failed ''retry'' w) = (r, b1, w1)"
    by (metis prod_cases3)
  then have b1: "b' = b1" using retried(4) by (metis prod.sel(1) prod.sel(2))
  from up have "find_message (msg_id msg') (messages b1) = Some msg'"
  proof (cases rule: update_message_cases)
    case unknown
    with id assms(5) show ?thesis by simp
  next
    case found
    then show ?thesis by (simp add: find_replace_first)
  qed
  then show ?thesis using n nextr id b1 retried(2,3) by (simp add: retry.push_mset)
qed

lemma backoff_doubles_witness:
  "\<exists>msg'. find_message ''a'' (messages (fst (snd (handle_failure 7000000000 7000000001 (demo_message ''a'')
      (demo_dispatcher, demo_broker\<lparr>messages := [demo_message ''a'']\<rparr>, demo_world))))) = Some msg' \<and>
    sint (next_retry msg') = 11"
proof -
  let ?p = "handle_failure 7000000000 7000000001 (demo_message ''a'')
      (demo_dispatcher, demo_broker\<lparr>messages := [demo_message ''a'']\<rparr>, demo_world)"
  obtain d' b' w' where run: "?p = (d', b', w')" by (metis prod_cases3)
  have c: "cfg_max_retries (d_cfg demo_dispatcher) = 2" "cfg_base_interval (d_cfg demo_dispatcher) = 2"
    "retry_count (demo_message ''a'') = 0" by code_simp+
  show ?thesis
    using backoff_doubles [OF run] c run by (auto simp: int64_bounds)
qed

section \<open>How often a message is tried\<close>

text \<open>
  Rounds of failed deliveries of the message with one identifier, each on the version the queue
  holds, with the two clock readings of each.
\<close>

fun fail_rounds :: "(time \<times> time) list \<Rightarrow> string \<Rightarrow> 's dispatcher \<times> bw \<Rightarrow> 's dispatcher \<times> bw" where
  "fail_rounds [] i s = s"
| "fail_rounds ((now, sched) # ts) i s =
     (case find_message i (messages (fst (snd s))) of
        None \<Rightarrow> s
      | Some msg \<Rightarrow> fail_rounds ts i (handle_failure now sched msg s))"

lemma handle_failure_round:
  assumes "handle_failure now sched msg (d, b, w) = (d', b', w')"
    "find_message i (messages b) = Some msg"
  shows "d_cfg d' = d_cfg d \<and>
    (if sint (retry_count msg) < sint (cfg_max_retries (d_cfg d))
     then \<exists>msg'. find_message i (messages b') = Some msg' \<and>
       sint (retry_count msg') = sint (retry_count msg) + 1
     else find_message i (messages b') = None)"
  using assms(1)
proof (cases rule: handle_failure_cases)
  case buried
  have i: "msg_id msg = i" "i \<in> msg_id ` set (messages b)" using find_message_Some [OF assms(2)] by auto
  obtain r b1 w1 where dlq: "move_to_dlq (msg_id msg) (b, inc_failed ''max_retries'' w) = (r, b1, w1)"
    by (metis prod_cases3)
  then have b1: "b' = b1" using buried(3) by (metis prod.sel(1) prod.sel(2))
  from dlq have "messages b1 = drop_id i (messages b)"
    by (cases rule: move_to_dlq_cases) (use i in auto)
  with buried b1 show ?thesis by auto
next
  case (retried msg')
  have i: "msg_id msg' = i" "i \<in> msg_id ` set (messages b)"
    using find_message_Some [OF assms(2)] retried(2) by auto
  obtain r b1 w1 where up: "update_message msg' (b, inc_failed ''retry'' w) = (r, b1, w1)"
    by (metis prod_cases3)
  then have b1: "b' = b1" using retried(4) by (metis prod.sel(1) prod.sel(2))
  from up have "find_message i (messages b1) = Some msg'"
    by (cases rule: update_message_cases) (use i find_replace_first [of msg'] in auto)
  then show ?thesis using retried b1 sint_inc [OF retried(1)] by simp
qed

lemma fail_rounds_none: "find_message i (messages (fst (snd s))) = None \<Longrightarrow> fail_rounds ts i s = s"
  by (cases "(ts, i, s)" rule: fail_rounds.cases) (auto simp del: find_message_None)

lemma fail_rounds_spec:
  "find_message i (messages b) = Some msg \<Longrightarrow> 
   sint (retry_count msg) \<le> sint (cfg_max_retries (d_cfg d)) \<Longrightarrow>
   fail_rounds ts i (d, b, w) = (d', b', w') \<Longrightarrow>
   (if sint (retry_count msg) + int (length ts) \<le> sint (cfg_max_retries (d_cfg d))
    then \<exists>msg'. find_message i (messages b') = Some msg' \<and>
      sint (retry_count msg') = sint (retry_count msg) + int (length ts)
    else find_message i (messages b') = None)"
proof (induction ts arbitrary: msg d b w)
  case Nil
  then show ?case by simp
next
  case (Cons tt ts)
  obtain now sched where tt: "tt = (now, sched)" by (cases tt)
  obtain d1 b1 w1 where step: "handle_failure now sched msg (d, b, w) = (d1, b1, w1)"
    by (metis prod_cases3)
  have rest: "fail_rounds ts i (d1, b1, w1) = (d', b', w')" using Cons.prems(1,3) step tt by simp
  note round = handle_failure_round [OF step Cons.prems(1)]
  show ?case
  proof (cases "sint (retry_count msg) < sint (cfg_max_retries (d_cfg d))")
    case True
    with round obtain msg' where msg': "find_message i (messages b1) = Some msg'"
      "sint (retry_count msg') = sint (retry_count msg) + 1" "d_cfg d1 = d_cfg d" by auto
    have n: "sint (retry_count msg') + int (length ts) = sint (retry_count msg) + int (length (tt # ts))"
      using msg'(2) by simp
    have "sint (retry_count msg') \<le> sint (cfg_max_retries (d_cfg d1))" using msg' True by simp
    from Cons.IH [OF msg'(1) this rest] show ?thesis unfolding n msg'(3) .
  next
    case False
    then have "find_message i (messages b1) = None" using round by simp
    then have "(d', b', w') = (d1, b1, w1)" using fail_rounds_none [of i "(d1, b1, w1)" ts] rest by simp
    then show ?thesis using round False Cons.prems(2) by auto
  qed
qed

text \<open>
  C11: a message is tried \<open>max_retries\<close> times again, then dead-lettered.  If every delivery of
  a new message fails, it is still queued, with the number of failures in its retry count,
  after up to \<open>max_retries\<close> of them, and out of the queue after one more.
\<close>

theorem retries_exhausted:
  assumes "find_message i (messages b) = Some msg" "sint (retry_count msg) = 0"
    "0 \<le> sint (cfg_max_retries (d_cfg d))" "fail_rounds ts i (d, b, w) = (d', b', w')"
  shows "(int (length ts) \<le> sint (cfg_max_retries (d_cfg d)) \<longrightarrow>
      (\<exists>msg'. find_message i (messages b') = Some msg' \<and> sint (retry_count msg') = int (length ts))) \<and>
    (sint (cfg_max_retries (d_cfg d)) < int (length ts) \<longrightarrow> i \<notin> msg_id ` set (messages b'))"
  using fail_rounds_spec [OF assms(1) _ assms(4)] assms(2,3) by (auto split: if_splits)

lemma retries_exhausted_witness:
  "''a'' \<notin> msg_id ` set (messages (fst (snd (fail_rounds [(7, 8), (9, 10), (11, 12)] ''a''
     (demo_dispatcher, demo_broker\<lparr>messages := [demo_message ''a'']\<rparr>, demo_world)))))"
proof -
  let ?p = "fail_rounds [(7, 8), (9, 10), (11, 12)] ''a''
     (demo_dispatcher, demo_broker\<lparr>messages := [demo_message ''a'']\<rparr>, demo_world)"
  obtain d' b' w' where run: "?p = (d', b', w')" by (metis prod_cases3)
  have c: "cfg_max_retries (d_cfg demo_dispatcher) = 2" "retry_count (demo_message ''a'') = 0" by code_simp+
  have f: "find_message ''a'' [demo_message ''a''] = Some (demo_message ''a'')"
    by (simp add: find_message_def)
  show ?thesis
    using retries_exhausted [of "''a''" "demo_broker\<lparr>messages := [demo_message ''a'']\<rparr>", OF _ _ _ run] c f run
    by simp
qed

end
