(* ===== verification/Target_Storage.thy ===== *)
theory Target_Storage
  imports Config
begin

text \<open>
  \<open>pkg/storage/sqlite.go\<close>: the targets table.  The database is a library, so the two
  statements the program executes are arguments (\<open>sql_driver\<close>); what the program relies on
  is the locale \<open>target_table\<close>, which states the documented meaning of the statements: an
  upsert by primary key, and a query of all rows in some order.
\<close>

section \<open>The statements\<close>

type_synonym target_row = "string \<times> string \<times> string option"

record 'db sql_driver =
  sql_open :: "string \<Rightarrow> go_error + 'db"
  exec_stmt :: "string \<Rightarrow> 'db \<Rightarrow> go_error option \<times> 'db"
  exec_upsert :: "string \<Rightarrow> string \<Rightarrow> string \<Rightarrow> 'db \<Rightarrow> go_error option \<times> 'db"
  query_targets :: "'db \<Rightarrow> go_error + target_row list"

section \<open>The operations\<close>

definition wal_pragma :: string where
  "wal_pragma = ''PRAGMA journal_mode=WAL;''"

definition create_targets :: string where
  "create_targets =
     ''CREATE TABLE IF NOT EXISTS targets ( name TEXT PRIMARY KEY, url TEXT NOT NULL, headers TEXT );''"

definition init_storage :: "('db, 'z) sql_driver_scheme \<Rightarrow> 'db \<Rightarrow> go_error option \<times> 'db" where
  "init_storage drv db =
     (case exec_stmt drv wal_pragma db of
        (Some e, db) \<Rightarrow> (Some (StorageFailed ''failed to enable WAL mode'' e), db)
      | (None, db) \<Rightarrow>
          (case exec_stmt drv create_targets db of
             (Some e, db) \<Rightarrow> (Some (StorageFailed ''failed to create targets table'' e), db)
           | (None, db) \<Rightarrow> (None, db)))"

definition new_target_storage :: "('db, 'z) sql_driver_scheme \<Rightarrow> string \<Rightarrow> go_error + 'db" where
  "new_target_storage drv dbPath =
     (case sql_open drv dbPath of
        Inl e \<Rightarrow> Inl (StorageFailed ''failed to open sqlite'' e)
      | Inr db \<Rightarrow>
          (case init_storage drv db of (Some e, db) \<Rightarrow> Inl e | (None, db) \<Rightarrow> Inr db))"

definition save_target :: "('db, 'z) sql_driver_scheme \<Rightarrow> target_config \<Rightarrow> 'db \<Rightarrow> go_error option \<times> 'db" where
  "save_target drv tc db =
     (case exec_upsert drv (tc_name tc) (tc_url tc) (marshal_headers (tc_headers tc)) db of
        (Some e, db) \<Rightarrow> (Some (StorageFailed ''failed to save target'' e), db)
      | (None, db) \<Rightarrow> (None, db))"

text \<open>One row: a NULL or empty column is an empty map; headers that do not parse are an error.\<close>

definition scan_target :: "target_row \<Rightarrow> go_error + target_config" where
  "scan_target row =
     (case row of (name, url, headersStr) \<Rightarrow>
       if headersStr \<noteq> None \<and> headersStr \<noteq> Some '''' then
         (case unmarshal_headers (the headersStr) of
            None \<Rightarrow> Inl (BadHeaders name)
          | Some h \<Rightarrow> Inr \<lparr>tc_name = name, tc_url = url, tc_headers = h\<rparr>)
       else Inr \<lparr>tc_name = name, tc_url = url, tc_headers = Some []\<rparr>)"

fun scan_targets :: "target_row list \<Rightarrow> go_error + target_config list" where
  "scan_targets [] = Inr []"
| "scan_targets (row # rows) =
     (case scan_target row of
        Inl e \<Rightarrow> Inl e
      | Inr tc \<Rightarrow> (case scan_targets rows of Inl e \<Rightarrow> Inl e | Inr tcs \<Rightarrow> Inr (tc # tcs)))"

definition get_all_targets :: "('db, 'z) sql_driver_scheme \<Rightarrow> 'db \<Rightarrow> go_error + target_config list" where
  "get_all_targets drv db =
     (case query_targets drv db of Inl e \<Rightarrow> Inl (StorageFailed ''failed to query targets'' e) | Inr rows \<Rightarrow> scan_targets rows)"

section \<open>The store the dispatcher uses\<close>

text \<open>
  \<open>TargetStorage\<close>: a successful save is seen by the loads after it under the name of the
  target, and by nothing else.
\<close>

locale target_store =
  fixes save :: "target_config \<Rightarrow> 's \<Rightarrow> go_error option \<times> 's"
    and load :: "'s \<Rightarrow> go_error + target_config list"
    and view :: "'s \<Rightarrow> string \<Rightarrow> target_config option"
  assumes view_save: "save tc s = (None, s') \<Longrightarrow> wf_headers (tc_headers tc) \<Longrightarrow>
      view s' = (view s)(tc_name tc \<mapsto> tc)"
    and view_failed: "save tc s = (Some e, s') \<Longrightarrow> view s' = view s"
    and load_view: "load s = Inr tcs \<Longrightarrow> distinct (map tc_name tcs) \<and>
      map_of (map (\<lambda>tc. (tc_name tc, tc)) tcs) = view s"
begin

lemma load_mem: "load s = Inr tcs \<Longrightarrow> tc \<in> set tcs \<longleftrightarrow> view s (tc_name tc) = Some tc"
proof -
  assume l: "load s = Inr tcs"
  have d: "distinct (map fst (map (\<lambda>tc. (tc_name tc, tc)) tcs))"
    using load_view [OF l] by (simp add: comp_def)
  have "view s (tc_name tc) = Some tc \<longleftrightarrow> (tc_name tc, tc) \<in> set (map (\<lambda>tc. (tc_name tc, tc)) tcs)"
    using load_view [OF l] map_of_eq_Some_iff [OF d] by metis
  then show ?thesis by auto
qed

text \<open>The last successful save of a name is what a load returns.\<close>

lemma save_load:
  "save tc s = (None, s') \<Longrightarrow> wf_headers (tc_headers tc) \<Longrightarrow> load s' = Inr tcs \<Longrightarrow> tc \<in> set tcs"
  using load_mem view_save by fastforce

end

section \<open>SQL gives such a store\<close>

text \<open>
  The documented behaviour of the two statements on the rows of the table: the upsert
  replaces the row of its name (or fails and changes nothing), the query returns every row
  once.
\<close>

locale target_table =
  fixes drv :: "'db sql_driver"
    and rows :: "'db \<Rightarrow> string \<Rightarrow> (string \<times> string option) option"
  assumes upsert_ok: "exec_upsert drv n u h db = (None, db') \<Longrightarrow> rows db' = (rows db)(n \<mapsto> (u, Some h))"
    and upsert_failed: "exec_upsert drv n u h db = (Some e, db') \<Longrightarrow> rows db' = rows db"
    and query_ok: "query_targets drv db = Inr rs \<Longrightarrow> distinct (map fst rs) \<and> map_of rs = rows db"
begin

definition view :: "'db \<Rightarrow> string \<Rightarrow> target_config option" where
  "view db n = (case rows db n of None \<Rightarrow> None
     | Some uh \<Rightarrow> (case scan_target (n, uh) of Inl e \<Rightarrow> None | Inr tc \<Rightarrow> Some tc))"

lemma print_headers_not_Nil: "marshal_headers h \<noteq> []"
  by (auto simp: marshal_headers_def encode_headers_def split: option.splits)

lemma scan_saved:
  "wf_headers (tc_headers tc) \<Longrightarrow>
   scan_target (tc_name tc, tc_url tc, Some (marshal_headers (tc_headers tc))) = Inr tc"
  using print_headers_not_Nil by (cases tc) (simp add: scan_target_def unmarshal_marshal_headers)

lemma scan_target_name: "scan_target (n, uh) = Inr tc \<Longrightarrow> tc_name tc = n"
  by (cases uh) (auto simp: scan_target_def split: if_splits option.splits)

lemma scan_targets_map:
  "scan_targets rs = Inr tcs \<Longrightarrow> distinct (map fst rs) \<Longrightarrow>
   map tc_name tcs = map fst rs \<and>
   map_of (map (\<lambda>tc. (tc_name tc, tc)) tcs) =
     (\<lambda>n. case map_of rs n of None \<Rightarrow> None
        | Some uh \<Rightarrow> (case scan_target (n, uh) of Inl e \<Rightarrow> None | Inr tc \<Rightarrow> Some tc))"
proof (induction rs arbitrary: tcs)
  case Nil
  then show ?case by auto
next
  case (Cons r rs)
  obtain n uh where r: "r = (n, uh)" by (cases r)
  obtain tc tcs1 where tc: "scan_target (n, uh) = Inr tc" "scan_targets rs = Inr tcs1"
    "tcs = tc # tcs1" using Cons.prems r by (auto split: sum.splits)
  note IH = Cons.IH [OF tc(2)]
  show ?case using IH Cons.prems(2) tc scan_target_name [OF tc(1)] r by (auto simp: fun_eq_iff)
qed

end

sublocale target_table \<subseteq> store: target_store "save_target drv" "get_all_targets drv" view
proof
  fix tc db db' e tcs
  show "view db' = (view db)(tc_name tc \<mapsto> tc)"
    if "save_target drv tc db = (None, db')" "wf_headers (tc_headers tc)"
  proof -
    have "rows db' = (rows db)(tc_name tc \<mapsto> (tc_url tc, Some (marshal_headers (tc_headers tc))))"
      using that(1) by (intro upsert_ok) (auto simp: save_target_def split: prod.splits option.splits)
    with scan_saved [OF that(2)] show ?thesis by (auto simp: view_def fun_eq_iff)
  qed
  show "view db' = view db" if "save_target drv tc db = (Some e, db')"
  proof -
    have "rows db' = rows db"
      using that by (auto simp: save_target_def split: prod.splits option.splits dest: upsert_failed)
    then show ?thesis by (simp add: view_def fun_eq_iff)
  qed
  show "distinct (map tc_name tcs) \<and> map_of (map (\<lambda>tc. (tc_name tc, tc)) tcs) = view db"
    if l: "get_all_targets drv db = Inr tcs"
  proof -
    obtain rs where rs: "query_targets drv db = Inr rs" "scan_targets rs = Inr tcs"
      using l by (cases "query_targets drv db") (auto simp: get_all_targets_def)
    show ?thesis
      using query_ok [OF rs(1)] scan_targets_map [OF rs(2)] by (auto simp: view_def fun_eq_iff)
  qed
qed

context target_table
begin

text \<open>What a successful save leaves for the loads after it, over any such table.\<close>

lemma saved_is_loaded:
  "save_target drv tc db = (None, db') \<Longrightarrow> wf_headers (tc_headers tc) \<Longrightarrow>
   get_all_targets drv db' = Inr tcs \<Longrightarrow> tc \<in> set tcs \<and> distinct (map tc_name tcs)"
  using store.save_load store.load_view by blast

end

section \<open>A table in memory\<close>

text \<open>A driver that behaves as documented and never fails: the rows are an association list.\<close>

definition memory_driver :: "(string \<times> string \<times> string option) list sql_driver" where
  "memory_driver =
     \<lparr>sql_open = (\<lambda>_. Inr []), exec_stmt = (\<lambda>_ db. (None, db)),
      exec_upsert = (\<lambda>n u h db. (None, AList.update n (u, Some h) (AList.clearjunk db))),
      query_targets = (\<lambda>db. Inr (AList.clearjunk db))\<rparr>"

interpretation memory: target_table memory_driver map_of
  by unfold_locales
    (auto simp: memory_driver_def map_of_clearjunk distinct_clearjunk fun_eq_iff)

end
