(* ===== verification/Target_Registry.thy ===== *)
theory Target_Registry
  imports Dispatcher_Facts Target_Storage
begin

text \<open>
  The targets between the dispatcher's map and their storage: what a registration leaves for
  the next start, and what the order of the background saves can do to it.
\<close>

section \<open>The map\<close>

lemma put_targets_Cons: "put_targets (tc # tcs) m = put_targets tcs (AList.update (tc_name tc) tc m)"
  by (simp add: put_targets_def)

lemma put_targets_other: "n \<notin> tc_name ` set tcs \<Longrightarrow> map_of (put_targets tcs m) n = map_of m n"
  by (induction tcs arbitrary: m) (auto simp: put_targets_Cons, simp add: put_targets_def)

lemma put_targets_mem:
  "distinct (map tc_name tcs) \<Longrightarrow> tc \<in> set tcs \<Longrightarrow> map_of (put_targets tcs m) (tc_name tc) = Some tc"
proof (induction tcs arbitrary: m)
  case (Cons x tcs)
  then show ?case by (cases "tc \<in> set tcs") (auto simp: put_targets_Cons put_targets_other)
qed simp

text \<open>Every entry of the map is under the name of its target, and there is one per name.\<close>

definition targets_ok :: "(string \<times> target_config) list \<Rightarrow> bool" where
  "targets_ok m \<longleftrightarrow> map_ok m \<and> (\<forall>n tc. map_of m n = Some tc \<longrightarrow> tc_name tc = n)"

lemma targets_ok_update: "targets_ok m \<Longrightarrow> targets_ok (AList.update (tc_name tc) tc m)"
  by (simp add: targets_ok_def)

lemma targets_ok_put: "targets_ok m \<Longrightarrow> targets_ok (put_targets tcs m)"
  by (induction tcs arbitrary: m) (simp_all add: put_targets_Cons targets_ok_update, simp add: put_targets_def)

lemma targets_ok_Nil [simp]: "targets_ok []"
  by (simp add: targets_ok_def)

lemma get_targets_set:
  "set order = dom (map_of (d_targets d)) \<Longrightarrow> set (get_targets order d) = ran (map_of (d_targets d))"
  by (auto simp: get_targets_def List.map_filter_def ran_def image_iff dom_def) (metis option.sel)

section \<open>Properties\<close>




end
