(* ===== verification/Http_Server.thy ===== *)
theory Http_Server
  imports Grpc_Server Net_Addr Target_Registry
begin

text \<open>
  \<open>pkg/server/http.go\<close>: the server record, the routes, one definition per handler.  A
  handler takes the body of the request and the server and returns
  the response with the server updated.  The rate limiter is a library, so its two operations
  are arguments (\<open>rate_api\<close>).
\<close>

section \<open>State\<close>

record 'l rate_api =
  new_limiter :: "rat \<Rightarrow> int \<Rightarrow> 'l"
  allow :: "time \<Rightarrow> 'l \<Rightarrow> bool \<times> 'l"

text \<open>\<open>hs_conns\<close> are the websocket connections, by number.\<close>

record ('l, 's) http_server =
  hs_broker :: broker
  hs_world :: world
  hs_dispatcher :: "'s dispatcher option"
  hs_conns :: "nat list"
  hs_limiter :: "'l option"
  hs_max_payload :: int
  hs_domains :: "string list"

definition new_http_server ::
  "'l rate_api \<Rightarrow> bw \<Rightarrow> 's dispatcher option \<Rightarrow> config option \<Rightarrow> ('l, 's) http_server" where
  "new_http_server api bw d cfg =
     (let limiter = (case cfg of
            None \<Rightarrow> None
          | Some c \<Rightarrow>
              if 0 < cfg_rate_limit_rps c then
                (let burst = cfg_rate_limit_burst c;
                     burst = (if burst = 0 then \<lfloor>cfg_rate_limit_rps c\<rfloor> else burst)
                 in Some (new_limiter api (cfg_rate_limit_rps c) burst))
              else None);
          maxPayload = (case cfg of
            None \<Rightarrow> 1048576
          | Some c \<Rightarrow> if 0 < sint (cfg_max_payload_size c) then sint (cfg_max_payload_size c) else 1048576);
          domains = (case cfg of None \<Rightarrow> [] | Some c \<Rightarrow> cfg_allowed_domains c)
      in \<lparr>hs_broker = fst bw, hs_world = snd bw, hs_dispatcher = d, hs_conns = [],
          hs_limiter = limiter, hs_max_payload = maxPayload, hs_domains = domains\<rparr>)"

section \<open>Requests and responses\<close>

datatype body = NoBody | ErrorText string | PlainText string | JsonBody json

record response =
  rs_status :: int
  rs_body :: body

definition http_error :: "string \<Rightarrow> int \<Rightarrow> response" where
  "http_error msg code = \<lparr>rs_status = code, rs_body = ErrorText msg\<rparr>"

definition json_response :: "int \<Rightarrow> json \<Rightarrow> response" where
  "json_response code j = \<lparr>rs_status = code, rs_body = JsonBody j\<rparr>"

text \<open>
  \<open>json.NewDecoder(r).Decode\<close> takes the first value of the stream and leaves the rest.  Behind
  \<open>MaxBytesReader\<close> only \<open>limit\<close> bytes arrive; a value that is not complete within them (a
  literal is complete only with the byte after it) is an error.  Of the texts of the decoder
  only these two are told apart; a body that is cut off and malformed gets the first here.
\<close>

definition too_large :: string where "too_large = ''http: request body too large''"
definition bad_json :: string where "bad_json = ''invalid JSON''"

definition closed_value :: "json \<Rightarrow> bool" where
  "closed_value j = (case j of JObj _ \<Rightarrow> True | JArr _ \<Rightarrow> True | _ \<Rightarrow> False)"

definition decode_stream :: "int option \<Rightarrow> string \<Rightarrow> string + json" where
  "decode_stream limit bytes =
     (let avail = (case limit of None \<Rightarrow> bytes | Some n \<Rightarrow> take (nat n) bytes);
          over = (length avail < length bytes)
      in case parse_prefix avail of
           None \<Rightarrow> Inl (if over then too_large else bad_json)
         | Some (j, rest) \<Rightarrow>
             if over \<and> rest = [] \<and> \<not> closed_value j then Inl too_large else Inr j)"

text \<open>A struct from an object: fields by name without regard to case, the others ignored.\<close>

fun decode_struct_fields ::
  "(string \<Rightarrow> json \<Rightarrow> 'a \<Rightarrow> 'a option) \<Rightarrow> (string \<times> json) list \<Rightarrow> 'a \<Rightarrow> 'a option" where
  "decode_struct_fields f [] x = Some x"
| "decode_struct_fields f ((k, j) # kjs) x =
     (case f (map to_lower k) j x of None \<Rightarrow> None | Some x \<Rightarrow> decode_struct_fields f kjs x)"

definition decode_struct :: "(string \<Rightarrow> json \<Rightarrow> 'a \<Rightarrow> 'a option) \<Rightarrow> 'a \<Rightarrow> json \<Rightarrow> 'a option" where
  "decode_struct f zero j =
     (case j of JObj kjs \<Rightarrow> decode_struct_fields f kjs zero | JNull \<Rightarrow> Some zero | _ \<Rightarrow> None)"

text \<open>A request body through a decoder of its type.\<close>

definition decode_body :: "int option \<Rightarrow> (json \<Rightarrow> 'a option) \<Rightarrow> string \<Rightarrow> string + 'a" where
  "decode_body limit f bytes =
     (case decode_stream limit bytes of
        Inl e \<Rightarrow> Inl e
      | Inr j \<Rightarrow> (case f j of None \<Rightarrow> Inl bad_json | Some x \<Rightarrow> Inr x))"

definition id_field :: "string \<Rightarrow> json \<Rightarrow> string \<Rightarrow> string option" where
  "id_field k j i = (if k = ''id'' then decode_string_field j i else Some i)"

definition path_field :: "string \<Rightarrow> json \<Rightarrow> string \<Rightarrow> string option" where
  "path_field k j p = (if k = ''path'' then decode_string_field j p else Some p)"

section \<open>Messages\<close>

text \<open>The clock readings of a push: the limiter, \<open>CreatedAt\<close>, and the breaker's two.\<close>

record push_clock =
  pc_limit :: time
  pc_created :: time
  pc_start :: time
  pc_end :: time

definition on_broker :: "(bw \<Rightarrow> 'r \<times> bw) \<Rightarrow> ('l, 's) http_server \<Rightarrow> 'r \<times> ('l, 's) http_server" where
  "on_broker f s =
     (case f (hs_broker s, hs_world s) of
        (r, b, w) \<Rightarrow> (r, s\<lparr>hs_broker := b, hs_world := w\<rparr>))"

text \<open>\<open>s.limiter != nil && !s.limiter.Allow()\<close>: whether the request may pass.\<close>

definition rate_check :: "'l rate_api \<Rightarrow> time \<Rightarrow> ('l, 's) http_server \<Rightarrow> bool \<times> ('l, 's) http_server" where
  "rate_check api now s =
     (case hs_limiter s of
        None \<Rightarrow> (True, s)
      | Some l \<Rightarrow> (case allow api now l of (ok, l) \<Rightarrow> (ok, s\<lparr>hs_limiter := Some l\<rparr>)))"

definition handle_push ::
  "'l rate_api \<Rightarrow> push_clock \<Rightarrow> string \<Rightarrow> ('l, 's) http_server \<Rightarrow> response \<times> ('l, 's) http_server" where
  "handle_push api ck bytes s =
     (case rate_check api (pc_limit ck) s of
        (False, s) \<Rightarrow> (http_error ''Rate limit exceeded'' 429, s)
      | (True, s) \<Rightarrow>
          (case decode_body (Some (hs_max_payload s)) decode_message bytes of
             Inl e \<Rightarrow> (http_error e 400, s)
           | Inr msg \<Rightarrow>
               let msg = msg\<lparr>created_at := unix (pc_created ck)\<rparr> in
               (case on_broker (push (pc_start ck) (pc_end ck) msg) s of
                  (Some e, s) \<Rightarrow> (http_error (error_text e) 500, s)
                | (None, s) \<Rightarrow> (json_response 201 (JObj [(''status'', JStr ''pushed'')]), s))))"

definition handle_pop :: "time \<Rightarrow> ('l, 's) http_server \<Rightarrow> response \<times> ('l, 's) http_server" where
  "handle_pop now s =
     (case on_broker (pop now) s of
        (Inl e, s) \<Rightarrow> (http_error (error_text e) 404, s)
      | (Inr msg, s) \<Rightarrow> (json_response 200 (encode_message msg), s))"

definition handle_ack :: "string \<Rightarrow> ('l, 's) http_server \<Rightarrow> response \<times> ('l, 's) http_server" where
  "handle_ack bytes s =
     (case decode_body None (decode_struct id_field '''') bytes of
        Inl e \<Rightarrow> (http_error e 400, s)
      | Inr i \<Rightarrow>
          (case on_broker (acknowledge i) s of
             (Some e, s) \<Rightarrow> (http_error (error_text e) 404, s)
           | (None, s) \<Rightarrow> (json_response 200 (JObj [(''status'', JStr ''acknowledged'')]), s)))"

definition handle_nack :: "string \<Rightarrow> ('l, 's) http_server \<Rightarrow> response \<times> ('l, 's) http_server" where
  "handle_nack bytes s =
     (case decode_body None (decode_struct id_field '''') bytes of
        Inl e \<Rightarrow> (http_error e 400, s)
      | Inr i \<Rightarrow>
          (case on_broker (negative_acknowledge i) s of
             (Some e, s) \<Rightarrow> (http_error (error_text e) 404, s)
           | (None, s) \<Rightarrow> (json_response 200 (JObj [(''status'', JStr ''nacked'')]), s)))"

text \<open>\<open>q\<close> is the queue as \<open>All\<close> sees it at each index; an empty slice that was never appended to is null.\<close>

definition handle_all :: "(nat \<Rightarrow> message list) \<Rightarrow> ('l, 's) http_server \<Rightarrow> response" where
  "handle_all q s =
     (let msgs = all_messages (hs_broker s) q
      in json_response 200 (if msgs = [] then JNull else JArr (map encode_message msgs)))"

section \<open>Statistics\<close>

definition json_int :: "int \<Rightarrow> json" where
  "json_int i = JNum (print_int i)"

definition cb_json :: "string \<Rightarrow> int \<times> int \<Rightarrow> json" where
  "cb_json st fm =
     JObj [(''failures'', json_int (fst fm)), (''state'', JStr st), (''threshold'', json_int (snd fm))]"

definition network_stats :: "('l, 's) http_server \<Rightarrow> string \<times> int \<times> int" where
  "network_stats s =
     (case hs_dispatcher s of
        None \<Rightarrow> (''N/A'', 0, 0)
      | Some d \<Rightarrow> (d_get_cb_state d, d_get_cb_metrics d))"

text \<open>The members of the map in the order in which a map is written: by key.\<close>

definition stats_members :: "('l, 's) http_server \<Rightarrow> (string \<times> json) list" where
  "stats_members s =
     (let (queueSize, dlqSize) = get_stats (hs_broker s);
          (networkState, networkMetrics) = network_stats s
      in [(''dlq_size'', json_int dlqSize),
          (''network_cb'', cb_json networkState networkMetrics),
          (''queue_size'', json_int queueSize),
          (''storage_cb'', cb_json (get_cb_state (hs_broker s)) (get_cb_metrics (hs_broker s)))])"

definition handle_stats :: "('l, 's) http_server \<Rightarrow> response" where
  "handle_stats s = json_response 200 (JObj (stats_members s))"

definition handle_health :: response where
  "handle_health = \<lparr>rs_status = 200, rs_body = PlainText ''OK''\<rparr>"

section \<open>Targets\<close>

definition encode_target :: "target_config \<Rightarrow> json" where
  "encode_target tc =
     JObj ([(''name'', JStr (tc_name tc)), (''url'', JStr (tc_url tc))] @
       (if header_entries (tc_headers tc) = [] then [] else [(''headers'', encode_headers (tc_headers tc))]))"

definition zero_target :: target_config where
  "zero_target = \<lparr>tc_name = '''', tc_url = '''', tc_headers = None\<rparr>"

definition target_field :: "string \<Rightarrow> json \<Rightarrow> target_config \<Rightarrow> target_config option" where
  "target_field k j tc =
     (if k = ''name'' then map_option (\<lambda>s. tc\<lparr>tc_name := s\<rparr>) (decode_string_field j (tc_name tc))
      else if k = ''url'' then map_option (\<lambda>s. tc\<lparr>tc_url := s\<rparr>) (decode_string_field j (tc_url tc))
      else if k = ''headers'' then
        (case j of
           JNull \<Rightarrow> Some (tc\<lparr>tc_headers := None\<rparr>)
         | JObj kjs \<Rightarrow>
             map_option (\<lambda>m. tc\<lparr>tc_headers := Some m\<rparr>)
               (decode_string_map kjs (header_entries (tc_headers tc)))
         | _ \<Rightarrow> None)
      else Some tc)"

text \<open>\<open>GetTargets\<close> with the order in which the map is ranged over; without a dispatcher it panics.\<close>

definition targets_json :: "string list \<Rightarrow> ('l, 's) http_server \<Rightarrow> json option" where
  "targets_json order s =
     map_option (\<lambda>d. JArr (map encode_target (get_targets order d))) (hs_dispatcher s)"

definition handle_get_targets :: "string list \<Rightarrow> ('l, 's) http_server \<Rightarrow> response" where
  "handle_get_targets order s =
     (case targets_json order s of
        None \<Rightarrow> http_error ''dispatcher not initialized'' 500
      | Some j \<Rightarrow> json_response 200 j)"

subsection \<open>The gatekeeper\<close>

definition is_private_ip :: "ip_addr \<Rightarrow> bool" where
  "is_private_ip ip \<longleftrightarrow>
     is_loopback ip \<or> is_link_local_unicast ip \<or> is_link_local_multicast ip \<or>
     list_ex (\<lambda>(base, bits). v4_net_contains base bits ip)
       [([10, 0, 0, 0], 8), ([172, 16, 0, 0], 12), ([192, 168, 0, 0], 16)]"

definition is_localhost_allowed :: "string \<Rightarrow> string list \<Rightarrow> bool" where
  "is_localhost_allowed host allowed \<longleftrightarrow>
     list_ex (\<lambda>d. (d = ''localhost'' \<or> d = ''127.0.0.1'') \<and> host = d) allowed"

text \<open>What the gatekeeper answers to a URL: \<open>None\<close> lets it pass.\<close>

definition gatekeeper :: "string list \<Rightarrow> string \<Rightarrow> response option" where
  "gatekeeper domains url =
     (if domains = [] then None
      else
        (case url_hostname url of
           None \<Rightarrow> Some (http_error ''invalid URL format'' 400)
         | Some host \<Rightarrow>
             if (case parse_ip host of None \<Rightarrow> False
                 | Some ip \<Rightarrow> is_private_ip ip \<and> \<not> is_localhost_allowed host domains)
             then Some (http_error ''private IP addresses not allowed'' 403)
             else if host \<notin> set domains
             then Some (http_error ''target domain not allowed by policy'' 403)
             else None))"

definition handle_register_target ::
  "string \<Rightarrow> ('l, 's) http_server \<Rightarrow> response \<times> ('l, 's) http_server" where
  "handle_register_target bytes s =
     (case decode_body None (decode_struct target_field zero_target) bytes of
        Inl e \<Rightarrow> (http_error e 400, s)
      | Inr tc \<Rightarrow>
          if tc_name tc = '''' \<or> tc_url tc = '''' then (http_error ''name and url are required'' 400, s)
          else
            (case gatekeeper (hs_domains s) (tc_url tc) of
               Some r \<Rightarrow> (r, s)
             | None \<Rightarrow>
                 (case hs_dispatcher s of
                    None \<Rightarrow> (http_error ''dispatcher not initialized'' 500, s)
                  | Some d \<Rightarrow>
                      (json_response 201 (JObj [(''name'', JStr (tc_name tc)),
                         (''status'', JStr ''target registered''), (''url'', JStr (tc_url tc))]),
                       s\<lparr>hs_dispatcher := Some (add_target tc d)\<rparr>))))"

section \<open>Operation\<close>

definition handle_reset :: "time \<Rightarrow> time \<Rightarrow> ('l, 's) http_server \<Rightarrow> response \<times> ('l, 's) http_server" where
  "handle_reset t t' s =
     (json_response 200 (JObj [(''status'', JStr ''system reset'')]),
      s\<lparr>hs_broker := broker_reset t (hs_broker s),
        hs_dispatcher := map_option (d_reset t') (hs_dispatcher s)\<rparr>)"

definition handle_set_storage_path ::
  "string \<Rightarrow> ('l, 's) http_server \<Rightarrow> response \<times> ('l, 's) http_server" where
  "handle_set_storage_path bytes s =
     (case decode_body None (decode_struct path_field '''') bytes of
        Inl e \<Rightarrow> (http_error e 400, s)
      | Inr p \<Rightarrow>
          (json_response 200 (JObj [(''new_path'', JStr p), (''status'', JStr ''storage path updated'')]),
           s\<lparr>hs_broker := set_storage_path p (hs_broker s)\<rparr>))"

definition cb_config_field :: "string \<Rightarrow> json \<Rightarrow> int64 \<times> int64 \<Rightarrow> (int64 \<times> int64) option" where
  "cb_config_field k j c =
     (if k = ''threshold'' then map_option (\<lambda>n. (n, snd c)) (decode_int64_field j (fst c))
      else if k = ''timeout_seconds'' then map_option (\<lambda>n. (fst c, n)) (decode_int64_field j (snd c))
      else Some c)"

definition handle_set_config ::
  "time \<Rightarrow> time \<Rightarrow> string \<Rightarrow> ('l, 's) http_server \<Rightarrow> response \<times> ('l, 's) http_server" where
  "handle_set_config t t' bytes s =
     (case decode_body None (decode_struct cb_config_field (0, 0)) bytes of
        Inl e \<Rightarrow> (http_error e 400, s)
      | Inr (threshold, timeout) \<Rightarrow>
          (json_response 200 (JObj [(''status'', JStr ''config updated''),
             (''threshold'', json_int (sint threshold)), (''timeout'', json_int (sint timeout))]),
           s\<lparr>hs_broker := broker_reset_config t (sint threshold) (seconds timeout) (hs_broker s),
             hs_dispatcher :=
               map_option (d_reset_config t' (sint threshold) (seconds timeout)) (hs_dispatcher s)\<rparr>))"

text \<open>
  \<open>handleTestConfigGatekeeper\<close>, which no route reaches.  The rate is the exact decimal of its
  literal.
\<close>

record gate_config =
  gc_rate :: rat
  gc_max_payload :: int64
  gc_domains :: "string list"
  gc_max_queue :: int64

definition rat_of_literal :: "string \<Rightarrow> rat option" where
  "rat_of_literal lit =
     (case split_num lit of
        None \<Rightarrow> None
      | Some (neg, ip, fp, e) \<Rightarrow>
          let v = of_nat (nat_of_digits (ip @ fp)); k = e - int (length fp);
              v = (if 0 \<le> k then v * 10 ^ nat k else v / 10 ^ nat (- k))
          in Some (if neg then - v else v))"

fun decode_strings :: "json list \<Rightarrow> string list option" where
  "decode_strings [] = Some []"
| "decode_strings (JStr s # js) = map_option (\<lambda>ss. s # ss) (decode_strings js)"
| "decode_strings (JNull # js) = map_option (\<lambda>ss. '''' # ss) (decode_strings js)"
| "decode_strings _ = None"

definition gate_field :: "string \<Rightarrow> json \<Rightarrow> gate_config \<Rightarrow> gate_config option" where
  "gate_field k j g =
     (if k = ''rate_limit_rps'' then
        (case j of
           JNum lit \<Rightarrow> map_option (\<lambda>r. g\<lparr>gc_rate := r\<rparr>) (rat_of_literal lit)
         | JNull \<Rightarrow> Some g
         | _ \<Rightarrow> None)
      else if k = ''max_payload_size'' then
        map_option (\<lambda>n. g\<lparr>gc_max_payload := n\<rparr>) (decode_int64_field j (gc_max_payload g))
      else if k = ''allowed_domains'' then
        (case j of
           JArr js \<Rightarrow> map_option (\<lambda>ss. g\<lparr>gc_domains := ss\<rparr>) (decode_strings js)
         | JNull \<Rightarrow> Some (g\<lparr>gc_domains := []\<rparr>)
         | _ \<Rightarrow> None)
      else if k = ''max_queue_size'' then
        map_option (\<lambda>n. g\<lparr>gc_max_queue := n\<rparr>) (decode_int64_field j (gc_max_queue g))
      else Some g)"

definition handle_test_config_gatekeeper ::
  "'l rate_api \<Rightarrow> string \<Rightarrow> ('l, 's) http_server \<Rightarrow> response \<times> ('l, 's) http_server" where
  "handle_test_config_gatekeeper api bytes s =
     (case decode_body None
             (decode_struct gate_field \<lparr>gc_rate = 0, gc_max_payload = 0, gc_domains = [], gc_max_queue = 0\<rparr>)
             bytes of
        Inl e \<Rightarrow> (http_error e 400, s)
      | Inr g \<Rightarrow>
          let s = s\<lparr>hs_limiter :=
                (if 0 < gc_rate g then Some (new_limiter api (gc_rate g) \<lfloor>gc_rate g\<rfloor>) else None)\<rparr>;
              s = (if 0 < sint (gc_max_payload g) then s\<lparr>hs_max_payload := sint (gc_max_payload g)\<rparr> else s);
              s = s\<lparr>hs_domains := gc_domains g\<rparr>;
              s = (if 0 < sint (gc_max_queue g)
                   then s\<lparr>hs_broker := set_config (sint (gc_max_queue g)) 0 (hs_broker s)\<rparr> else s)
          in (\<lparr>rs_status = 200, rs_body = NoBody\<rparr>, s))"

section \<open>Routes\<close>

datatype endpoint =
    Push | Pop | Ack | Nack | AllMessages | Stats | Health | Targets | RegisterTarget | Reset
  | StoragePath | SetConfig | WebSocket | Metrics | Profile | Dashboard

text \<open>A pattern with \<open>GET\<close> also takes \<open>HEAD\<close>; what matches nothing else is the dashboard's.\<close>

definition route :: "string \<Rightarrow> string \<Rightarrow> endpoint" where
  "route meth path =
     (let getting = (meth = ''GET'' \<or> meth = ''HEAD''); posting = (meth = ''POST'') in
      if posting \<and> path = ''/api/messages'' then Push
      else if getting \<and> path = ''/api/messages'' then Pop
      else if posting \<and> path = ''/api/messages/ack'' then Ack
      else if posting \<and> path = ''/api/messages/nack'' then Nack
      else if getting \<and> path = ''/api/messages/all'' then AllMessages
      else if getting \<and> path = ''/api/stats'' then Stats
      else if getting \<and> path = ''/api/health'' then Health
      else if getting \<and> path = ''/api/targets'' then Targets
      else if posting \<and> path = ''/api/targets'' then RegisterTarget
      else if posting \<and> path = ''/api/reset'' then Reset
      else if posting \<and> path = ''/api/test/storage-path'' then StoragePath
      else if posting \<and> path = ''/api/test/config'' then SetConfig
      else if path = ''/ws'' then WebSocket
      else if path = ''/metrics'' then Metrics
      else if has_prefix path ''/debug/pprof/'' then Profile
      else Dashboard)"

text \<open>What one API request depends on besides its body: clocks, map order, the queue under \<open>All\<close>.\<close>

record request_env =
  rq_clock :: push_clock
  rq_order :: "string list"
  rq_queue :: "nat \<Rightarrow> message list"

definition serve ::
  "'l rate_api \<Rightarrow> request_env \<Rightarrow> string \<Rightarrow> string \<Rightarrow> string \<Rightarrow> ('l, 's) http_server
     \<Rightarrow> response option \<times> ('l, 's) http_server" where
  "serve api env meth path bytes s =
     (let ck = rq_clock env; t = pc_start ck; t' = pc_end ck in
      case route meth path of
        Push \<Rightarrow> apfst Some (handle_push api ck bytes s)
      | Pop \<Rightarrow> apfst Some (handle_pop t s)
      | Ack \<Rightarrow> apfst Some (handle_ack bytes s)
      | Nack \<Rightarrow> apfst Some (handle_nack bytes s)
      | AllMessages \<Rightarrow> (Some (handle_all (rq_queue env) s), s)
      | Stats \<Rightarrow> (Some (handle_stats s), s)
      | Health \<Rightarrow> (Some handle_health, s)
      | Targets \<Rightarrow> (Some (handle_get_targets (rq_order env) s), s)
      | RegisterTarget \<Rightarrow> apfst Some (handle_register_target bytes s)
      | Reset \<Rightarrow> apfst Some (handle_reset t t' s)
      | StoragePath \<Rightarrow> apfst Some (handle_set_storage_path bytes s)
      | SetConfig \<Rightarrow> apfst Some (handle_set_config t t' bytes s)
      | _ \<Rightarrow> (None, s))"

end
