(* ===== verification/Streaming.thy ===== *)
theory Streaming
  imports Http_Server
begin

text \<open>
  The streaming of statistics to websocket clients (\<open>StartStreaming\<close>, \<open>broadcastStats\<close>,
  \<open>handleWS\<close> of \<open>pkg/server/http.go\<close>): updates of the broker and the dispatcher start a
  debounce timer, and its expiry sends one message to every connection.
\<close>

section \<open>Connections\<close>

text \<open>A connection is added after its upgrade and removed when a read or a write on it fails.\<close>

definition ws_connect :: "nat \<Rightarrow> ('l, 's) http_server \<Rightarrow> ('l, 's) http_server" where
  "ws_connect c s = s\<lparr>hs_conns := List.insert c (hs_conns s)\<rparr>"

definition ws_remove :: "nat \<Rightarrow> ('l, 's) http_server \<Rightarrow> ('l, 's) http_server" where
  "ws_remove c s = s\<lparr>hs_conns := removeAll c (hs_conns s)\<rparr>"

text \<open>
  One broadcast: nothing without connections, otherwise the statistics with targets and time.
  \<open>GetTargets\<close> is called on the dispatcher without the check made above it, so a server
  without a dispatcher panics.
\<close>

datatype broadcast_result = Quiet | Panics | Broadcast json

definition broadcast_stats :: "time \<Rightarrow> string list \<Rightarrow> ('l, 's) http_server \<Rightarrow> broadcast_result" where
  "broadcast_stats now order s =
     (if hs_conns s = [] then Quiet
      else
        (case targets_json order s of
           None \<Rightarrow> Panics
         | Some targets \<Rightarrow>
             Broadcast (JObj (stats_members s @
               [(''targets'', targets), (''timestamp'', json_int (sint (unix now)))]))))"

text \<open>The writes go on in the background; \<open>ok\<close> says which succeed.\<close>

definition finish_broadcast :: "(nat \<Rightarrow> bool) \<Rightarrow> nat list \<Rightarrow> ('l, 's) http_server \<Rightarrow> ('l, 's) http_server" where
  "finish_broadcast ok conns s = fold (\<lambda>c s. if ok c then s else ws_remove c s) conns s"

section \<open>The loop\<close>

record streamer =
  st_broker_sub :: nat
  st_dispatcher_sub :: "nat option"
  st_timer :: "time option"
  st_needs :: bool

definition start_streaming :: "('l, 's) http_server \<Rightarrow> streamer \<times> ('l, 's) http_server" where
  "start_streaming s =
     (let (i, b) = subscribe (hs_broker s);
          s = s\<lparr>hs_broker := b\<rparr>
      in case hs_dispatcher s of
           None \<Rightarrow> (\<lparr>st_broker_sub = i, st_dispatcher_sub = None, st_timer = None, st_needs = False\<rparr>, s)
         | Some d \<Rightarrow>
             (case d_subscribe d of
                (j, d) \<Rightarrow>
                  (\<lparr>st_broker_sub = i, st_dispatcher_sub = Some j, st_timer = None, st_needs = False\<rparr>,
                   s\<lparr>hs_dispatcher := Some d\<rparr>)))"

definition debounce :: int where "debounce = 100000000"

definition stream_updated :: "time \<Rightarrow> streamer \<Rightarrow> streamer" where
  "stream_updated now st = st\<lparr>st_needs := True, st_timer := Some (now + debounce)\<rparr>"

definition take_broker_update ::
  "time \<Rightarrow> streamer \<times> ('l, 's) http_server \<Rightarrow> (streamer \<times> ('l, 's) http_server) option" where
  "take_broker_update now ss =
     (case ss of (st, s) \<Rightarrow>
       let b = hs_broker s; i = st_broker_sub st in
       if length (listeners b) \<le> i then None
       else
         (case try_recv (listeners b ! i) of
            None \<Rightarrow> None
          | Some (_, c) \<Rightarrow>
              Some (stream_updated now st, s\<lparr>hs_broker := b\<lparr>listeners := (listeners b)[i := c]\<rparr>\<rparr>)))"

definition take_dispatcher_update ::
  "time \<Rightarrow> streamer \<times> ('l, 's) http_server \<Rightarrow> (streamer \<times> ('l, 's) http_server) option" where
  "take_dispatcher_update now ss =
     (case ss of (st, s) \<Rightarrow>
       (case (hs_dispatcher s, st_dispatcher_sub st) of
          (Some d, Some i) \<Rightarrow>
            if length (d_listeners d) \<le> i then None
            else
              (case try_recv (d_listeners d ! i) of
                 None \<Rightarrow> None
               | Some (_, c) \<Rightarrow>
                   Some (stream_updated now st,
                     s\<lparr>hs_dispatcher := Some (d\<lparr>d_listeners := (d_listeners d)[i := c]\<rparr>)\<rparr>))
        | _ \<Rightarrow> None))"

definition take_timer ::
  "time \<Rightarrow> string list \<Rightarrow> streamer \<times> ('l, 's) http_server \<Rightarrow> (broadcast_result \<times> streamer) option" where
  "take_timer now order ss =
     (case ss of (st, s) \<Rightarrow>
       (case st_timer st of
          None \<Rightarrow> None
        | Some deadline \<Rightarrow>
            if deadline \<le> now then
              Some (if st_needs st then broadcast_stats now order s else Quiet,
                    st\<lparr>st_timer := None, st_needs := False\<rparr>)
            else None))"

section \<open>Signals\<close>

lemma notify_signals:
  assumes "channels_ok b" "n < length (listeners b)"
  shows "chan_buf (listeners (notify b) ! n) \<noteq> []"
proof -
  let ?c = "listeners b ! n"
  have "chan_cap ?c = 1" using assms by (auto simp: channels_ok_def)
  then show ?thesis using assms(2)
    by (auto simp: notify_def chan.buf_send chan.fst_send_iff)
qed

lemma notify_listeners [simp]: "length (listeners (notify b)) = length (listeners b)"
  by (simp add: notify_def)

text \<open>A push that is accepted has notified, whatever the breaker did.\<close>

lemma push_listeners_notified:
  assumes "push t0 t1 m (b, w) = (None, b', w')"
  shows "listeners b' = listeners (notify b)"
  using assms
proof (cases rule: push_cases)
  case (refused c)
  then show ?thesis by simp
next
  case (ran b1)
  from ran(1) have "listeners b1 = listeners (notify b)"
  proof (cases rule: do_push_cases)
    case (pushed d)
    then have "b1 = fst (push_commit m (b, w\<lparr>wdisk := d\<rparr>))" by (metis fst_conv)
    then show ?thesis by (simp add: push_commit_def Let_def notify_def)
  qed simp_all
  moreover have "listeners b' = listeners b1" by (subst ran(2)) simp
  ultimately show ?thesis by simp
qed

text \<open>Every operation that changes which messages are queued notifies the state listeners.\<close>

lemma run_op_notifies:
  assumes "run_op op (b, w) = (r, b', w')" "map msg_id (messages b') \<noteq> map msg_id (messages b)"
  shows "\<exists>b1. listeners b' = listeners (notify b1) \<and> listeners b1 = listeners b"
proof (cases op)
  case (OpPush t0 t1 m)
  then obtain r1 where p: "push t0 t1 m (b, w) = (r1, b', w')" using assms(1) by (auto simp: run_op_Pair)
  then have "r1 = None" using push_frame [OF p] assms(2) by (auto split: if_splits)
  then show ?thesis using push_listeners_notified p by blast
next
  case (OpPop t)
  then obtain r1 where "pop t (b, w) = (r1, b', w')" using assms(1) by (auto simp: run_op_Pair)
  then show ?thesis by (cases rule: pop_cases) (use assms(2) in \<open>auto simp: notify_def\<close>)
next
  case (OpAck i)
  then obtain r1 where "acknowledge i (b, w) = (r1, b', w')" using assms(1) by (auto simp: run_op_Pair)
  then show ?thesis by (cases rule: acknowledge_cases) (use assms(2) in \<open>auto simp: notify_def\<close>)
next
  case (OpNack i)
  then obtain r1 where "negative_acknowledge i (b, w) = (r1, b', w')"
    using assms(1) by (auto simp: run_op_Pair)
  then show ?thesis
    by (cases rule: negative_acknowledge_cases) (use assms(2) in \<open>auto simp: notify_def\<close>)
next
  case (OpTick t order)
  then show ?thesis using assms(1)
    by (auto simp: timeout_tick_eq intro!: exI [of _ "fold (requeue_expired t) order b"])
next
  case (OpDlq i)
  then obtain r1 where "move_to_dlq i (b, w) = (r1, b', w')" using assms(1) by (auto simp: run_op_Pair)
  then show ?thesis
    by (cases rule: move_to_dlq_cases) (use assms(2) in \<open>auto simp: notify_def dlq_count_def\<close>)
next
  case (OpUpdate m)
  then obtain r1 where "update_message m (b, w) = (r1, b', w')" using assms(1) by (auto simp: run_op_Pair)
  then show ?thesis by (cases rule: update_message_cases) (use assms(2) in auto)
qed (use assms in auto)

end
