(* ===== verification/Dispatch_Runs.thy ===== *)
theory Dispatch_Runs
  imports Dispatcher_Facts Durability Target_Storage
begin

text \<open>
  The goroutines of the dispatcher put together: the event loop (a message from the broker or
  the retry timer), the turns of \<open>processRetryHeap\<close>, the workers, the background saves, and
  the calls clients make on the broker meanwhile, as labelled steps of one system.
\<close>

section \<open>The system\<close>

text \<open>
  \<open>retry_loop\<close> is \<open>Some now\<close> while the event loop is inside \<open>processRetryHeap\<close> with the second
  it read; \<open>working\<close> are the messages the workers are processing; \<open>sub_id\<close> is the position of
  the event loop's channel among the broker's message listeners.
\<close>

record 's system =
  sys_disp :: "'s dispatcher"
  sys_broker :: broker
  sys_world :: world
  working :: "message list"
  retry_loop :: "int64 option"
  sub_id :: nat

datatype dispatch_label =
    Receive
  | TimerFires time
  | RetryTurn time
  | TakeTask
  | FinishTask nat process_env
  | BrokerCall broker_op
  | AddTarget target_config
  | RunSave nat
  | ResetDispatcher time
  | ReconfigureDispatcher time int int64

definition sub_chan :: "'s system \<Rightarrow> message chan" where
  "sub_chan s = msg_listeners (sys_broker s) ! sub_id s"

definition step_receive :: "'s system \<Rightarrow> 's system option" where
  "step_receive s =
     (if retry_loop s \<noteq> None \<or> length (msg_listeners (sys_broker s)) \<le> sub_id s then None
      else
        (case try_recv (sub_chan s) of
           None \<Rightarrow> None
         | Some (msg, c) \<Rightarrow>
             let b = sys_broker s; d = sys_disp s in
             Some (s\<lparr>sys_broker := b\<lparr>msg_listeners := (msg_listeners b)[sub_id s := c]\<rparr>,
                     sys_disp := d\<lparr>task_chan := send_or_drop msg (task_chan d)\<rparr>\<rparr>)))"

definition step_timer :: "time \<Rightarrow> 's system \<Rightarrow> 's system option" where
  "step_timer now s =
     (case retry_timer (sys_disp s) of
        None \<Rightarrow> None
      | Some deadline \<Rightarrow>
          if retry_loop s = None \<and> deadline \<le> now
          then Some (s\<lparr>sys_disp := (sys_disp s)\<lparr>retry_timer := None\<rparr>, retry_loop := Some (unix now)\<rparr>)
          else None)"

definition step_retry_turn :: "time \<Rightarrow> 's system \<Rightarrow> 's system option" where
  "step_retry_turn t s =
     (case retry_loop s of
        None \<Rightarrow> None
      | Some now \<Rightarrow>
          (case retry_turn now t (sys_disp s) of
             (goes_on, d) \<Rightarrow>
               Some (s\<lparr>sys_disp := d, retry_loop := (if goes_on then Some now else None)\<rparr>)))"

definition step_take :: "'s system \<Rightarrow> 's system option" where
  "step_take s =
     (if int (length (working s)) < worker_count (d_cfg (sys_disp s)) then
        (case try_recv (task_chan (sys_disp s)) of
           None \<Rightarrow> None
         | Some (msg, c) \<Rightarrow>
             Some (s\<lparr>sys_disp := (sys_disp s)\<lparr>task_chan := c\<rparr>, working := working s @ [msg]\<rparr>))
      else None)"

definition step_finish :: "nat \<Rightarrow> process_env \<Rightarrow> 's system \<Rightarrow> 's system option" where
  "step_finish i env s =
     (if i < length (working s) then
        (case process_message env (working s ! i) (sys_disp s, sys_broker s, sys_world s) of
           (d, b, w) \<Rightarrow>
             Some (s\<lparr>sys_disp := release (working s ! i) d, sys_broker := b, sys_world := w,
                     working := take i (working s) @ drop (Suc i) (working s)\<rparr>))
      else None)"

definition step_call :: "broker_op \<Rightarrow> 's system \<Rightarrow> 's system option" where
  "step_call op s =
     (case run_op op (sys_broker s, sys_world s) of
        (r, b, w) \<Rightarrow> Some (s\<lparr>sys_broker := b, sys_world := w\<rparr>))"

text \<open>The dispatcher alone changes.\<close>

definition on_disp :: "('s dispatcher \<Rightarrow> 's dispatcher) \<Rightarrow> 's system \<Rightarrow> 's system option" where
  "on_disp f s = Some (s\<lparr>sys_disp := f (sys_disp s)\<rparr>)"

fun dispatch_step ::
  "(target_config \<Rightarrow> 's \<Rightarrow> go_error option \<times> 's) \<Rightarrow> dispatch_label \<Rightarrow> 's system \<Rightarrow> 's system option" where
  "dispatch_step save Receive s = step_receive s"
| "dispatch_step save (TimerFires t) s = step_timer t s"
| "dispatch_step save (RetryTurn t) s = step_retry_turn t s"
| "dispatch_step save TakeTask s = step_take s"
| "dispatch_step save (FinishTask i env) s = step_finish i env s"
| "dispatch_step save (BrokerCall op) s = step_call op s"
| "dispatch_step save (AddTarget tc) s = on_disp (add_target tc) s"
| "dispatch_step save (RunSave i) s = on_disp (run_save_job save i) s"
| "dispatch_step save (ResetDispatcher t) s = on_disp (d_reset t) s"
| "dispatch_step save (ReconfigureDispatcher t n k) s = on_disp (d_reset_config t n k) s"

inductive dispatch_run ::
  "(target_config \<Rightarrow> 's \<Rightarrow> go_error option \<times> 's) \<Rightarrow> 's system \<Rightarrow> dispatch_label list \<Rightarrow> 's system \<Rightarrow> bool"
  for save where
  stop: "dispatch_run save s [] s"
| step: "dispatch_step save l s = Some s1 \<Longrightarrow> dispatch_run save s1 ls s2 \<Longrightarrow>
    dispatch_run save s (l # ls) s2"

inductive_cases dispatch_run_ConsE: "dispatch_run save s (l # ls) s2"

text \<open>The system as \<open>Start\<close> leaves it before its loop.\<close>

definition start_system ::
  "('s \<Rightarrow> go_error + target_config list) \<Rightarrow> time \<Rightarrow> (nat \<Rightarrow> message list) \<Rightarrow> 's dispatcher \<Rightarrow> bw
     \<Rightarrow> 's system" where
  "start_system load now q d bw =
     (case start_dispatcher load now q d bw of
        (sub, d, b, w) \<Rightarrow>
          \<lparr>sys_disp = d, sys_broker = b, sys_world = w, working = [], retry_loop = None, sub_id = sub\<rparr>)"

section \<open>Frames\<close>

lemma d_notify_frame [simp]:
  "retry_heap (d_notify d) = retry_heap d" "retry_timer (d_notify d) = retry_timer d"
  "task_chan (d_notify d) = task_chan d" "d_targets (d_notify d) = d_targets d"
  "d_storage (d_notify d) = d_storage d" "save_jobs (d_notify d) = save_jobs d"
  "d_cfg (d_notify d) = d_cfg d"
  by (simp_all add: d_notify_def)

lemma add_target_frame [simp]:
  "retry_heap (add_target tc d) = retry_heap d" "retry_timer (add_target tc d) = retry_timer d"
  "task_chan (add_target tc d) = task_chan d" "d_storage (add_target tc d) = d_storage d"
  "d_targets (add_target tc d) = AList.update (tc_name tc) tc (d_targets d)"
  by (simp_all add: add_target_def Let_def)

lemma run_save_job_frame [simp]:
  "retry_heap (run_save_job save i d) = retry_heap d" "retry_timer (run_save_job save i d) = retry_timer d"
  "task_chan (run_save_job save i d) = task_chan d" "d_targets (run_save_job save i d) = d_targets d"
  by (simp_all add: run_save_job_def split: option.split)

lemma d_reset_frame [simp]:
  "retry_heap (d_reset t d) = retry_heap d" "retry_timer (d_reset t d) = retry_timer d"
  "task_chan (d_reset t d) = task_chan d"
  "retry_heap (d_reset_config t n k d) = retry_heap d"
  "retry_timer (d_reset_config t n k d) = retry_timer d"
  "task_chan (d_reset_config t n k d) = task_chan d"
  by (simp_all add: d_reset_def d_reset_config_def)

lemma process_message_disp:
  assumes "process_message env msg (d, b, w) = (d', b', w')"
  obtains (same) "retry_heap d' = retry_heap d" "retry_timer d' = retry_timer d" "task_chan d' = task_chan d"
  | (retried) msg' d1 where "msg_id msg' = msg_id msg" "d' = schedule_retry (pe_sched env) msg' d1"
      "retry_heap d1 = retry_heap d" "retry_timer d1 = retry_timer d" "task_chan d1 = task_chan d"
  using assms
proof (cases rule: process_message_cases)
  case idle
  with that(1) show ?thesis by simp
next
  case (delivered r breaker w1)
  with that(1) show ?thesis by simp
next
  case (failed r breaker)
  from failed(2) show ?thesis
  proof (cases rule: handle_failure_cases)
    case buried
    with that(1) show ?thesis by simp
  next
    case (retried msg')
    with that(2) [of msg' "d\<lparr>d_cb := breaker\<rparr>"] show ?thesis by simp
  qed
qed

section \<open>The retry timer\<close>

definition armed :: "'s system \<Rightarrow> bool" where
  "armed s \<longleftrightarrow> heap_ordered msg_less (retry_heap (sys_disp s)) \<and>
     (retry_heap (sys_disp s) \<noteq> [] \<and> retry_loop s = None \<longrightarrow> retry_timer (sys_disp s) \<noteq> None)"

lemma heap_push_Nil [simp]: "heap_push msg_less m [] = [m]"
  by (simp add: heap_push_def heap_up.simps parent_def)

lemma schedule_retry_timer:
  "retry_heap d = [] \<or> retry_timer d \<noteq> None \<Longrightarrow> retry_timer (schedule_retry t m d) \<noteq> None"
  by (auto simp: schedule_retry_def Let_def heap_peek_def)

lemma armed_schedule:
  assumes "heap_ordered msg_less (retry_heap d)"
    "retry_heap d \<noteq> [] \<and> l = None \<longrightarrow> retry_timer d \<noteq> None"
  shows "heap_ordered msg_less (retry_heap (schedule_retry t m d)) \<and>
    (l = None \<longrightarrow> retry_timer (schedule_retry t m d) \<noteq> None)"
  using assms schedule_retry_timer [of d t m] by (auto simp: retry.push_ordered)

lemma heap_peek_False [simp]: "heap_peek h = (m, False) \<longleftrightarrow> h = [] \<and> m = zero_message"
  by (cases h) (auto simp: heap_peek_def)

lemma heap_peek_True [simp]: "heap_peek h = (m, True) \<longleftrightarrow> h \<noteq> [] \<and> m = h ! 0"
  by (cases h) (auto simp: heap_peek_def)

text \<open>The turns of the retry loop: it stops on an empty heap or with the timer set again.\<close>

lemma retry_turn_cases:
  assumes "retry_turn now t d = (goes_on, d')" "heap_ordered msg_less (retry_heap d)"
  obtains (empty) "retry_heap d = []" "\<not> goes_on" "d' = d"
  | (later) "retry_heap d \<noteq> []" "sint now < sint (next_retry (retry_heap d ! 0))" "\<not> goes_on"
      "d' = d\<lparr>retry_timer := Some (timer_at t (next_retry (retry_heap d ! 0) - now))\<rparr>"
  | (sent) h where "retry_heap d \<noteq> []" "sint (next_retry (retry_heap d ! 0)) \<le> sint now" goes_on
      "heap_pop msg_less (retry_heap d) = Some (retry_heap d ! 0, h)"
      "length (chan_buf (task_chan d)) < chan_cap (task_chan d)"
      "d' = d\<lparr>retry_heap := h, task_chan := send_or_drop (retry_heap d ! 0) (task_chan d)\<rparr>"
  | (full) h where "retry_heap d \<noteq> []" "sint (next_retry (retry_heap d ! 0)) \<le> sint now" goes_on
      "heap_pop msg_less (retry_heap d) = Some (retry_heap d ! 0, h)" "chan_full (task_chan d)"
      "d' = schedule_retry t (retry_heap d ! 0) (d\<lparr>retry_heap := h\<rparr>)"
proof (cases "retry_heap d = []")
  case True
  with assms(1) show ?thesis by (intro empty) (auto simp: retry_turn_def heap_peek_def)
next
  case False
  let ?m = "retry_heap d ! 0"
  have peek: "heap_peek (retry_heap d) = (?m, True)" using False by simp
  show ?thesis
  proof (cases "sint (next_retry ?m) \<le> sint now")
    case due: True
    obtain x h where pop: "heap_pop msg_less (retry_heap d) = Some (x, h)"
      using retry.pop_Some [OF False] by blast
    have x: "x = ?m" using retry.pop_spec [OF assms(2) pop] by simp
    show ?thesis
    proof (cases "chan_full (task_chan d)")
      case True
      with assms(1) peek due pop x False show ?thesis
        by (intro full) (auto simp: retry_turn_def try_send_def simp del: heap_peek_True)
    next
      case room: False
      with assms(1) peek due pop x False show ?thesis
        by (intro sent)
          (auto simp: retry_turn_def try_send_def chan_full_def not_le Let_def simp del: heap_peek_True)
    qed
  next
    case False
    with assms(1) peek \<open>retry_heap d \<noteq> []\<close> show ?thesis
      by (intro later) (auto simp: retry_turn_def simp del: heap_peek_True)
  qed
qed

lemma armed_step:
  assumes "dispatch_step save l s = Some s'" "armed s"
  shows "armed s'"
proof (cases l)
  case Receive
  with assms show ?thesis
    by (auto simp: step_receive_def armed_def Let_def split: if_splits option.splits)
next
  case (TimerFires t)
  with assms show ?thesis
    by (auto simp: step_timer_def armed_def split: if_splits option.splits)
next
  case (RetryTurn t)
  with assms(1) obtain now goes_on d where loop: "retry_loop s = Some now"
    and turn: "retry_turn now t (sys_disp s) = (goes_on, d)"
    and s': "s' = s\<lparr>sys_disp := d, retry_loop := (if goes_on then Some now else None)\<rparr>"
    by (auto simp: step_retry_turn_def split: option.splits prod.splits)
  have ord: "heap_ordered msg_less (retry_heap (sys_disp s))" using assms(2) by (simp add: armed_def)
  from turn ord show ?thesis
  proof (cases rule: retry_turn_cases)
    case (sent h)
    then show ?thesis using retry.pop_spec [OF ord sent(4)] s' by (simp add: armed_def)
  next
    case (full h)
    then show ?thesis using retry.pop_spec [OF ord full(4)] s'
      by (simp add: armed_def retry.push_ordered)
  qed (use s' ord in \<open>auto simp: armed_def\<close>)
next
  case TakeTask
  with assms show ?thesis by (auto simp: step_take_def armed_def split: if_splits option.splits)
next
  case (FinishTask i env)
  then obtain d b w where
    pm: "process_message env (working s ! i) (sys_disp s, sys_broker s, sys_world s) = (d, b, w)"
    and s': "retry_heap (sys_disp s') = retry_heap d" "retry_timer (sys_disp s') = retry_timer d"
      "retry_loop s' = retry_loop s"
    using assms(1) by (auto simp: step_finish_def split: if_splits prod.splits)
  from pm show ?thesis
  proof (cases rule: process_message_disp)
    case same
    with s' assms(2) show ?thesis by (simp add: armed_def)
  next
    case (retried msg' d1)
    have "heap_ordered msg_less (retry_heap d) \<and> (retry_loop s = None \<longrightarrow> retry_timer d \<noteq> None)"
      unfolding retried(2) by (rule armed_schedule) (use retried assms(2) in \<open>auto simp: armed_def\<close>)
    with s' show ?thesis by (simp add: armed_def)
  qed
next
  case (BrokerCall op)
  with assms show ?thesis by (auto simp: step_call_def armed_def split: prod.splits)
qed (use assms in \<open>auto simp: on_disp_def armed_def\<close>)

lemma armed_run: "dispatch_run save s ls s' \<Longrightarrow> armed s \<Longrightarrow> armed s'"
  by (induction rule: dispatch_run.induct) (auto dest: armed_step)

lemma offer_ready_frame [simp]:
  "retry_heap (offer_ready now m d) = retry_heap d" "retry_timer (offer_ready now m d) = retry_timer d"
  "d_cfg (offer_ready now m d) = d_cfg d" "d_targets (offer_ready now m d) = d_targets d"
  by (auto simp: offer_ready_def Let_def split: prod.splits bool.splits)

lemma fill_task_queue_frame [simp]:
  "retry_heap (fill_task_queue t ms d) = retry_heap d" "retry_timer (fill_task_queue t ms d) = retry_timer d"
  "d_cfg (fill_task_queue t ms d) = d_cfg d" "d_targets (fill_task_queue t ms d) = d_targets d"
  unfolding fill_task_queue_def by (induction ms arbitrary: d) simp_all

lemma load_targets_frame [simp]:
  "retry_heap (load_targets load d) = retry_heap d" "retry_timer (load_targets load d) = retry_timer d"
  "task_chan (load_targets load d) = task_chan d" "d_cfg (load_targets load d) = d_cfg d"
  "in_progress (load_targets load d) = in_progress d"
  by (auto simp: load_targets_def split: option.splits sum.splits)

lemma armed_start:
  "armed (start_system load now q (new_dispatcher t cfg breaker st) bw)"
  by (cases bw) (auto simp: start_system_def start_dispatcher_def armed_def new_dispatcher_def Let_def
      split: prod.splits)

section \<open>The retry loop\<close>

text \<open>The turns of one call of \<open>processRetryHeap\<close> with nobody else acting, one clock reading each.\<close>

fun retry_turns :: "int64 \<Rightarrow> time list \<Rightarrow> 's dispatcher \<Rightarrow> bool \<times> 's dispatcher" where
  "retry_turns now [] d = (True, d)"
| "retry_turns now (t # ts) d =
     (case retry_turn now t d of
        (False, d') \<Rightarrow> (False, d')
      | (True, d') \<Rightarrow> retry_turns now ts d')"

definition due :: "int64 \<Rightarrow> message \<Rightarrow> bool" where
  "due now m \<longleftrightarrow> sint (next_retry m) \<le> sint now"

lemma not_due_all:
  assumes "heap_ordered msg_less h" "h \<noteq> []" "\<not> due now (h ! 0)" "m \<in> set h"
  shows "\<not> due now m"
proof -
  obtain x h' where pop: "heap_pop msg_less h = Some (x, h')" using retry.pop_Some [OF assms(2)] by blast
  have "\<not> msg_less m (h ! 0)"
    using retry.pop_least [OF assms(1) pop assms(4)] retry.pop_spec [OF assms(1) pop] by simp
  with assms(3) show ?thesis by (simp add: due_def msg_less_def)
qed

text \<open>
  With room for the messages that are due, the loop ends, after having sent exactly them.
\<close>

lemma retry_turns_end:
  assumes "heap_ordered msg_less (retry_heap d)"
    "chan_cap (task_chan d) = length (chan_buf (task_chan d)) + k"
    "size (filter_mset (due now) (mset (retry_heap d))) \<le> k"
    "size (filter_mset (due now) (mset (retry_heap d))) < length ts"
  shows "\<exists>d' sent. retry_turns now ts d = (False, d') \<and>
    chan_buf (task_chan d') = chan_buf (task_chan d) @ sent \<and>
    mset sent = filter_mset (due now) (mset (retry_heap d)) \<and>
    mset (retry_heap d') = filter_mset (\<lambda>m. \<not> due now m) (mset (retry_heap d))"
  using assms
proof (induction ts arbitrary: d k)
  case (Cons t ts)
  obtain goes_on d1 where turn: "retry_turn now t d = (goes_on, d1)" by fastforce
  from turn Cons.prems(1) show ?case
  proof (cases rule: retry_turn_cases)
    case empty
    with turn show ?thesis by auto
  next
    case later
    have none: "\<forall>m \<in> set (retry_heap d). \<not> due now m"
      using not_due_all [OF Cons.prems(1) later(1)] later(2) by (auto simp: due_def)
    then have "filter (due now) (retry_heap d) = []"
      "filter (\<lambda>m. \<not> due now m) (retry_heap d) = retry_heap d"
      by (auto simp: filter_empty_conv intro: filter_id)
    then have "filter_mset (due now) (mset (retry_heap d)) = {#}"
      "filter_mset (\<lambda>m. \<not> due now m) (mset (retry_heap d)) = mset (retry_heap d)"
      by (simp_all flip: mset_filter)
    with turn later show ?thesis by auto
  next
    case (sent h)
    let ?m = "retry_heap d ! 0"
    note spec = retry.pop_spec [OF Cons.prems(1) sent(4)]
    have due: "due now ?m" using sent(2) by (simp add: due_def)
    have d1: "retry_heap d1 = h" "chan_buf (task_chan d1) = chan_buf (task_chan d) @ [?m]"
      "chan_cap (task_chan d1) = chan_cap (task_chan d)"
      using sent by (simp_all add: chan.send_room)
    have size: "size (filter_mset (due now) (mset (retry_heap d))) =
        Suc (size (filter_mset (due now) (mset h)))" using spec due by simp
    have "\<exists>d' snt. retry_turns now ts d1 = (False, d') \<and>
        chan_buf (task_chan d') = chan_buf (task_chan d1) @ snt \<and>
        mset snt = filter_mset (due now) (mset (retry_heap d1)) \<and>
        mset (retry_heap d') = filter_mset (\<lambda>m. \<not> due now m) (mset (retry_heap d1))"
      by (rule Cons.IH [of d1 "k - 1"]) (use Cons.prems d1 size spec in auto)
    then obtain d' snt where IH: "retry_turns now ts d1 = (False, d')"
      "chan_buf (task_chan d') = chan_buf (task_chan d1) @ snt"
      "mset snt = filter_mset (due now) (mset h)"
      "mset (retry_heap d') = filter_mset (\<lambda>m. \<not> due now m) (mset h)" unfolding d1(1) by blast
    have "retry_turns now (t # ts) d = (False, d')" using turn sent(3) IH(1) by simp
    moreover have "chan_buf (task_chan d') = chan_buf (task_chan d) @ (?m # snt)" using IH(2) d1 by simp
    moreover have "mset (?m # snt) = filter_mset (due now) (mset (retry_heap d))"
      "mset (retry_heap d') = filter_mset (\<lambda>m. \<not> due now m) (mset (retry_heap d))"
      using IH(3,4) spec due by simp_all
    ultimately show ?thesis by blast
  next
    case (full h)
    have "due now (retry_heap d ! 0) \<and> retry_heap d ! 0 \<in> set (retry_heap d)"
      using full(1,2) by (auto simp: due_def)
    then have "filter (due now) (retry_heap d) \<noteq> []" by (auto simp: filter_empty_conv)
    then have "filter_mset (due now) (mset (retry_heap d)) \<noteq> {#}" by (simp flip: mset_filter)
    with full(5) Cons.prems(2,3) show ?thesis by (simp add: chan_full_def)
  qed
qed simp

text \<open>With the task channel full and a message due, no number of turns ends the loop.\<close>

lemma retry_turns_spin:
  assumes "heap_ordered msg_less (retry_heap d)" "chan_full (task_chan d)"
    "\<exists>m \<in> set (retry_heap d). due now m"
  shows "\<exists>d'. retry_turns now ts d = (True, d') \<and> task_chan d' = task_chan d \<and>
    mset (retry_heap d') = mset (retry_heap d)"
  using assms
proof (induction ts arbitrary: d)
  case (Cons t ts)
  obtain goes_on d1 where turn: "retry_turn now t d = (goes_on, d1)" by fastforce
  from turn Cons.prems(1) show ?case
  proof (cases rule: retry_turn_cases)
    case empty
    with Cons.prems(3) show ?thesis by simp
  next
    case later
    with Cons.prems(3) not_due_all [OF Cons.prems(1) later(1)] show ?thesis by (auto simp: due_def)
  next
    case (sent h)
    with Cons.prems(2) show ?thesis by (simp add: chan_full_def)
  next
    case (full h)
    note spec = retry.pop_spec [OF Cons.prems(1) full(4)]
    have d1: "task_chan d1 = task_chan d" "mset (retry_heap d1) = mset (retry_heap d)"
      "heap_ordered msg_less (retry_heap d1)"
      using full spec by (simp_all add: retry.push_mset retry.push_ordered)
    have "set (retry_heap d1) = set (retry_heap d)" using d1(2) mset_eq_setD by blast
    then have "\<exists>d'. retry_turns now ts d1 = (True, d') \<and> task_chan d' = task_chan d1 \<and>
        mset (retry_heap d') = mset (retry_heap d1)"
      using Cons.prems d1 by (intro Cons.IH) auto
    then show ?thesis using turn full(3) d1 by auto
  qed
qed simp

section \<open>The pipeline\<close>

text \<open>
  The identifiers of the messages the dispatcher has in its hands: waiting in its subscription
  or in the task channel, with a worker, or in the retry heap.
\<close>

definition pipeline :: "'s system \<Rightarrow> message set" where
  "pipeline s = set (chan_buf (sub_chan s)) \<union> set (chan_buf (task_chan (sys_disp s))) \<union>
     set (working s) \<union> set (retry_heap (sys_disp s))"

definition tracked :: "'s system \<Rightarrow> string set" where
  "tracked s = msg_id ` pipeline s"

definition subscribed :: "'s system \<Rightarrow> bool" where
  "subscribed s \<longleftrightarrow> sub_id s < length (msg_listeners (sys_broker s))"

lemma push_listeners:
  assumes "push t0 t1 m (b, w) = (r, b', w')"
  shows "msg_listeners b' = (if r = None then map (send_or_drop m) (msg_listeners b) else msg_listeners b)"
  using assms
proof (cases rule: push_cases)
  case (refused c)
  then show ?thesis by auto
next
  case (ran b1)
  from ran(1) have "msg_listeners b1 = (if r = None then map (send_or_drop m) (msg_listeners b) else msg_listeners b)"
  proof (cases rule: do_push_cases)
    case (pushed d)
    then have "b1 = fst (push_commit m (b, w\<lparr>wdisk := d\<rparr>))" by (metis fst_conv)
    with pushed(3) show ?thesis by (simp add: push_commit_def Let_def broadcast_def)
  qed simp_all
  moreover have "msg_listeners b' = msg_listeners b1" by (subst ran(2)) simp
  ultimately show ?thesis by simp
qed

lemma run_op_listeners:
  assumes "run_op op (b, w) = (r, b', w')" "n < length (msg_listeners b)"
  shows "n < length (msg_listeners b') \<and>
    set (chan_buf (msg_listeners b' ! n)) \<subseteq>
      set (chan_buf (msg_listeners b ! n)) \<union> {m. \<exists>t0 t1. op = OpPush t0 t1 m}"
proof (cases op)
  case (OpPush t0 t1 m)
  then obtain r1 where "push t0 t1 m (b, w) = (r1, b', w')" using assms(1) by (auto simp: run_op_Pair)
  from push_listeners [OF this] show ?thesis
    using assms(2) OpPush by (auto simp: chan.buf_send split: if_splits)
next
  case (OpAck i)
  then obtain r1 where "acknowledge i (b, w) = (r1, b', w')" using assms(1) by (auto simp: run_op_Pair)
  then show ?thesis by (cases rule: acknowledge_cases) (use assms(2) in auto)
next
  case (OpNack i)
  then obtain r1 where "negative_acknowledge i (b, w) = (r1, b', w')"
    using assms(1) by (auto simp: run_op_Pair)
  then show ?thesis by (cases rule: negative_acknowledge_cases) (use assms(2) in auto)
next
  case (OpPop t)
  then obtain r1 where "pop t (b, w) = (r1, b', w')" using assms(1) by (auto simp: run_op_Pair)
  then show ?thesis by (cases rule: pop_cases) (use assms(2) in auto)
next
  case (OpDlq i)
  then obtain r1 where "move_to_dlq i (b, w) = (r1, b', w')" using assms(1) by (auto simp: run_op_Pair)
  then show ?thesis by (cases rule: move_to_dlq_cases) (use assms(2) in \<open>auto simp: dlq_count_def\<close>)
next
  case (OpUpdate m)
  then obtain r1 where "update_message m (b, w) = (r1, b', w')" using assms(1) by (auto simp: run_op_Pair)
  then show ?thesis by (cases rule: update_message_cases) (use assms(2) in auto)
qed (use assms in \<open>auto simp: timeout_tick_eq subscribe_def subscribe_messages_def nth_append\<close>)

text \<open>Processing a message is, for the broker, one of its operations on that message.\<close>

lemma process_message_broker:
  assumes "process_message env msg (d, b, w) = (d', b', w')"
  shows "msg_listeners b' = msg_listeners b"
  using assms
proof (cases rule: process_message_cases)
  case (delivered r breaker w1)
  obtain r1 b1 w2 where ack: "acknowledge (msg_id msg) (b, w1) = (r1, b1, w2)" by (metis prod_cases3)
  then have "b' = b1" using delivered(5) by (metis prod.sel(1) prod.sel(2))
  with ack show ?thesis by (cases rule: acknowledge_cases) simp_all
next
  case (failed r breaker)
  from failed(2) show ?thesis
  proof (cases rule: handle_failure_cases)
    case buried
    obtain r1 b1 w1 where dlq: "move_to_dlq (msg_id msg) (b, inc_failed ''max_retries'' w) = (r1, b1, w1)"
      by (metis prod_cases3)
    then have "b' = b1" using buried(3) by (metis prod.sel(1) prod.sel(2))
    with dlq show ?thesis by (cases rule: move_to_dlq_cases) (auto simp: dlq_count_def)
  next
    case (retried msg')
    obtain r1 b1 w1 where up: "update_message msg' (b, inc_failed ''retry'' w) = (r1, b1, w1)"
      by (metis prod_cases3)
    then have "b' = b1" using retried(4) by (metis prod.sel(1) prod.sel(2))
    with up show ?thesis by (cases rule: update_message_cases) simp_all
  qed
qed simp

fun pushes_id :: "string \<Rightarrow> dispatch_label \<Rightarrow> bool" where
  "pushes_id i (BrokerCall (OpPush t0 t1 m)) = (msg_id m = i)"
| "pushes_id i _ = False"

lemma set_take_drop: "set (take i xs @ drop (Suc i) xs) \<subseteq> set xs"
  using set_take_subset set_drop_subset by fastforce

text \<open>A step brings no identifier into the pipeline but that of a pushed message.\<close>

lemma tracked_step:
  assumes "dispatch_step save l s = Some s'" "armed s" "subscribed s"
  shows "subscribed s' \<and> tracked s' \<subseteq> tracked s \<union> {i. pushes_id i l}"
proof (cases l)
  case Receive
  then obtain m c where rc: "try_recv (sub_chan s) = Some (m, c)"
    and s': "s' = s\<lparr>sys_broker := (sys_broker s)\<lparr>msg_listeners := (msg_listeners (sys_broker s))[sub_id s := c]\<rparr>,
        sys_disp := (sys_disp s)\<lparr>task_chan := send_or_drop m (task_chan (sys_disp s))\<rparr>\<rparr>"
    using assms(1) by (auto simp: step_receive_def Let_def split: if_splits option.splits)
  have "chan_buf (sub_chan s) = m # chan_buf c" using chan.recv_Some [OF rc] by simp
  moreover have "chan_buf (sub_chan s') = chan_buf c"
    using assms(3) s' by (simp add: sub_chan_def subscribed_def)
  moreover have "set (chan_buf (send_or_drop m (task_chan (sys_disp s)))) \<subseteq>
      insert m (set (chan_buf (task_chan (sys_disp s))))" by (auto simp: chan.buf_send)
  ultimately show ?thesis using assms(3) s'
    by (auto simp: tracked_def pipeline_def subscribed_def)
next
  case (TimerFires t)
  then show ?thesis using assms(1,3)
    by (auto simp: step_timer_def tracked_def pipeline_def sub_chan_def subscribed_def
        split: if_splits option.splits)
next
  case (RetryTurn t)
  then obtain now goes_on d where turn: "retry_turn now t (sys_disp s) = (goes_on, d)"
    and s': "s' = s\<lparr>sys_disp := d, retry_loop := (if goes_on then Some now else None)\<rparr>"
    using assms(1) by (auto simp: step_retry_turn_def split: option.splits prod.splits)
  have ord: "heap_ordered msg_less (retry_heap (sys_disp s))" using assms(2) by (simp add: armed_def)
  from turn ord have "set (chan_buf (task_chan d)) \<union> set (retry_heap d) \<subseteq>
      set (chan_buf (task_chan (sys_disp s))) \<union> set (retry_heap (sys_disp s))"
  proof (cases rule: retry_turn_cases)
    case (sent h)
    have "set h \<subseteq> set (retry_heap (sys_disp s))"
      using retry.pop_spec [OF ord sent(4)] by (metis set_mset_add_mset_insert set_mset_mset subset_insertI)
    with sent show ?thesis by (auto simp: chan.buf_send)
  next
    case (full h)
    have "set h \<subseteq> set (retry_heap (sys_disp s))"
      using retry.pop_spec [OF ord full(4)] by (metis set_mset_add_mset_insert set_mset_mset subset_insertI)
    with full show ?thesis by auto
  qed auto
  then show ?thesis using assms(3) s'
    by (auto simp: tracked_def pipeline_def subscribed_def sub_chan_def)
next
  case TakeTask
  then obtain m c where rc: "try_recv (task_chan (sys_disp s)) = Some (m, c)"
    and s': "s' = s\<lparr>sys_disp := (sys_disp s)\<lparr>task_chan := c\<rparr>, working := working s @ [m]\<rparr>"
    using assms(1) by (auto simp: step_take_def split: if_splits option.splits)
  have "chan_buf (task_chan (sys_disp s)) = m # chan_buf c" using chan.recv_Some [OF rc] by simp
  then show ?thesis using assms(3) s'
    by (auto simp: tracked_def pipeline_def subscribed_def sub_chan_def)
next
  case (FinishTask i env)
  then obtain d b w where i: "i < length (working s)"
    and pm: "process_message env (working s ! i) (sys_disp s, sys_broker s, sys_world s) = (d, b, w)"
    and s': "s' = s\<lparr>sys_disp := release (working s ! i) d, sys_broker := b, sys_world := w,
        working := take i (working s) @ drop (Suc i) (working s)\<rparr>"
    using assms(1) by (auto simp: step_finish_def split: if_splits prod.splits)
  have b: "msg_listeners b = msg_listeners (sys_broker s)" by (rule process_message_broker [OF pm])
  have w: "set (working s') \<subseteq> set (working s)" "working s ! i \<in> set (working s)"
    using set_take_drop [of i "working s"] i s' by auto
  from pm have p: "msg_id ` (set (chan_buf (task_chan d)) \<union> set (retry_heap d)) \<subseteq>
      msg_id ` (set (chan_buf (task_chan (sys_disp s))) \<union> set (retry_heap (sys_disp s)) \<union> {working s ! i})"
    by (cases rule: process_message_disp) auto
  have e: "tracked s' = msg_id ` set (chan_buf (sub_chan s)) \<union> msg_id ` set (working s') \<union>
      msg_id ` (set (chan_buf (task_chan d)) \<union> set (retry_heap d))"
    using b by (simp add: s' tracked_def pipeline_def sub_chan_def image_Un Un_ac)
  have "tracked s' \<subseteq> tracked s"
    unfolding e using p image_mono [OF w(1), of msg_id] imageI [OF w(2), of msg_id]
    by (auto simp: tracked_def pipeline_def)
  then show ?thesis using assms(3) s' b by (auto simp: subscribed_def)
next
  case (BrokerCall op)
  then obtain r b w where op: "run_op op (sys_broker s, sys_world s) = (r, b, w)"
    and s': "s' = s\<lparr>sys_broker := b, sys_world := w\<rparr>"
    using assms(1) by (auto simp: step_call_def split: prod.splits)
  have "sub_id s < length (msg_listeners b) \<and> set (chan_buf (msg_listeners b ! sub_id s)) \<subseteq>
      set (chan_buf (sub_chan s)) \<union> {m. \<exists>t0 t1. op = OpPush t0 t1 m}"
    using run_op_listeners [OF op] assms(3) by (simp add: subscribed_def sub_chan_def)
  then show ?thesis using s' BrokerCall
    by (auto simp: tracked_def pipeline_def subscribed_def sub_chan_def)
qed (use assms in \<open>auto simp: on_disp_def tracked_def pipeline_def subscribed_def sub_chan_def\<close>)

lemma tracked_run:
  "dispatch_run save s ls s' \<Longrightarrow> armed s \<Longrightarrow> subscribed s \<Longrightarrow>
   tracked s' \<subseteq> tracked s \<union> {i. \<exists>l \<in> set ls. pushes_id i l}"
proof (induction rule: dispatch_run.induct)
  case (step l s s1 ls s2)
  have "armed s1" "subscribed s1" "tracked s1 \<subseteq> tracked s \<union> {i. pushes_id i l}"
    using armed_step [OF step(1)] tracked_step [OF step(1)] step.prems by auto
  with step.IH show ?case by auto
qed simp

section \<open>An example system\<close>

definition demo_system :: "(string \<times> string \<times> string option) list system" where
  "demo_system = start_system (get_all_targets memory_driver) 0 (\<lambda>_. []) demo_dispatcher
     (demo_broker, demo_world)"

fun dispatch_steps ::
  "(target_config \<Rightarrow> 's \<Rightarrow> go_error option \<times> 's) \<Rightarrow> dispatch_label list \<Rightarrow> 's system \<Rightarrow> 's system option" where
  "dispatch_steps save [] s = Some s"
| "dispatch_steps save (l # ls) s =
     (case dispatch_step save l s of None \<Rightarrow> None | Some s1 \<Rightarrow> dispatch_steps save ls s1)"

lemma dispatch_run_steps: "dispatch_steps save ls s = Some s' \<Longrightarrow> dispatch_run save s ls s'"
  by (induction ls arbitrary: s) (auto intro: dispatch_run.intros split: option.splits)

text \<open>A message is pushed, fails at its target, and waits for its retry.\<close>

definition failing_run :: "dispatch_label list" where
  "failing_run = [BrokerCall (OpPush 1000000000 1000000001 (demo_message ''a'')), Receive, TakeTask,
     FinishTask 0 (demo_env 500 2000000000)]"

section \<open>Properties\<close>

text \<open>
  C4: the retry timer is armed.  In every state the dispatcher can reach, when messages wait
  for a retry, either \<open>processRetryHeap\<close> is running or the timer is set: no retry waits for an
  event that never comes.
\<close>

theorem retry_timer_armed:
  assumes "dispatch_run save (start_system load now q (new_dispatcher t cfg breaker st) bw) ls s"
    "retry_heap (sys_disp s) \<noteq> []"
  shows "retry_loop s \<noteq> None \<or> retry_timer (sys_disp s) \<noteq> None"
  using armed_run [OF assms(1) armed_start] assms(2) by (auto simp: armed_def)

lemma retry_timer_armed_witness:
  "\<exists>s. dispatch_run (save_target memory_driver) demo_system failing_run s \<and>
     retry_timer (sys_disp s) \<noteq> None \<and> retry_heap (sys_disp s) \<noteq> []"
proof -
  have "map_option (\<lambda>s. (retry_heap (sys_disp s) \<noteq> [], retry_loop s))
      (dispatch_steps (save_target memory_driver) failing_run demo_system) = Some (True, None)"
    by code_simp
  then obtain s where s: "dispatch_steps (save_target memory_driver) failing_run demo_system = Some s"
    "retry_heap (sys_disp s) \<noteq> []" "retry_loop s = None" by auto
  have run: "dispatch_run (save_target memory_driver) demo_system failing_run s"
    by (rule dispatch_run_steps) (rule s(1))
  then show ?thesis
    using retry_timer_armed [OF run [unfolded demo_system_def demo_dispatcher_def] s(2)] s by auto
qed

text \<open>
  C18: the retry loop ends and sends what is due.  When the task channel has room for every
  message that is due and nobody else acts, the loop ends after at most one turn more than
  there are such messages; it has sent exactly them, behind what was waiting, and left the
  others in the heap.
\<close>

theorem retry_loop_ends:
  assumes "heap_ordered msg_less (retry_heap d)"
    "length (chan_buf (task_chan d)) + length (filter (due now) (retry_heap d)) \<le> chan_cap (task_chan d)"
    "length (filter (due now) (retry_heap d)) < length ts"
  shows "\<exists>d' sent. retry_turns now ts d = (False, d') \<and>
    chan_buf (task_chan d') = chan_buf (task_chan d) @ sent \<and>
    mset sent = mset (filter (due now) (retry_heap d)) \<and>
    mset (retry_heap d') = mset (filter (\<lambda>m. \<not> due now m) (retry_heap d))"
proof -
  have size: "size (filter_mset (due now) (mset (retry_heap d))) = length (filter (due now) (retry_heap d))"
    by (metis mset_filter size_mset)
  have "\<exists>d' sent. retry_turns now ts d = (False, d') \<and>
      chan_buf (task_chan d') = chan_buf (task_chan d) @ sent \<and>
      mset sent = filter_mset (due now) (mset (retry_heap d)) \<and>
      mset (retry_heap d') = filter_mset (\<lambda>m. \<not> due now m) (mset (retry_heap d))"
    by (rule retry_turns_end [OF assms(1), of "chan_cap (task_chan d) - length (chan_buf (task_chan d))"])
      (use assms(2,3) size in simp_all)
  then show ?thesis by (simp add: mset_filter)
qed

definition waiting_dispatcher :: "(string \<times> string \<times> string option) list dispatcher" where
  "waiting_dispatcher = demo_dispatcher\<lparr>retry_heap := fold (heap_push msg_less)
     [retry_at ''a'' 30, retry_at ''b'' 10, retry_at ''c'' 20] []\<rparr>"

lemma waiting_ordered: "heap_ordered msg_less (retry_heap waiting_dispatcher)"
proof -
  have "heap_ordered msg_less [retry_at ''a'' 30]" by (simp add: heap_ordered_def)
  then show ?thesis by (simp add: waiting_dispatcher_def retry.push_ordered)
qed

lemma retry_loop_ends_witness:
  "\<exists>d'. retry_turns 20 [21, 22, 23] waiting_dispatcher = (False, d') \<and>
     length (chan_buf (task_chan d')) = 2"
proof -
  have n: "length (filter (due 20) (retry_heap waiting_dispatcher)) = 2"
    "chan_buf (task_chan waiting_dispatcher) = []" "chan_cap (task_chan waiting_dispatcher) = 100"
    by code_simp+
  obtain d' sent where "retry_turns 20 [21, 22, 23] waiting_dispatcher = (False, d')"
    "chan_buf (task_chan d') = sent" "mset sent = mset (filter (due 20) (retry_heap waiting_dispatcher))"
    using retry_loop_ends [OF waiting_ordered, of 20 "[21, 22, 23]"] n by auto
  then show ?thesis using n(1) by (metis size_mset)
qed

text \<open>
  C34: the retry loop spins on a full task channel.  When the channel is full and a message is
  due, no number of turns ends the loop: each pops a message and pushes it back, and only a
  worker that takes a task lets the event loop go on.
\<close>

theorem retry_loop_spins:
  assumes "heap_ordered msg_less (retry_heap d)" "chan_full (task_chan d)"
    "m \<in> set (retry_heap d)" "due now m"
  shows "\<exists>d'. retry_turns now ts d = (True, d') \<and> task_chan d' = task_chan d \<and>
    mset (retry_heap d') = mset (retry_heap d)"
  using retry_turns_spin [of d now ts] assms by blast

lemma retry_loop_spins_witness:
  "fst (retry_turns 20 (replicate 1000 21) (waiting_dispatcher\<lparr>task_chan := make_chan 0\<rparr>))"
proof -
  have "retry_at ''b'' 10 \<in> set (retry_heap (waiting_dispatcher\<lparr>task_chan := make_chan 0\<rparr>))"
    "due 20 (retry_at ''b'' 10)" by code_simp+
  with retry_loop_spins [of "waiting_dispatcher\<lparr>task_chan := make_chan 0\<rparr>" "retry_at ''b'' 10" 20
      "replicate 1000 21"] waiting_ordered
  show ?thesis by (auto simp: chan_full_def make_chan_def)
qed


text \<open>All hundred places of the task channel are taken when a message arrives.\<close>

definition busy_system :: "(string \<times> string \<times> string option) list system" where
  "busy_system = demo_system
     \<lparr>sys_broker := (sys_broker demo_system)
        \<lparr>messages := [demo_message ''late''],
         msg_listeners := [\<lparr>chan_buf = [demo_message ''late''], chan_cap = 100\<rparr>]\<rparr>,
      sys_disp := (sys_disp demo_system)
        \<lparr>task_chan := \<lparr>chan_buf = replicate 100 (demo_message ''early''), chan_cap = 100\<rparr>\<rparr>\<rparr>"


end
