(* ===== verification/Program.thy ===== *)
theory Program
  imports Streaming Dispatch_Runs
begin

text \<open>
  \<open>main.go\<close>: what the process has built when its servers start.  The outside (the
  configuration file, the database driver, the listening socket, whether the telemetry log can
  be opened) is a record of arguments.
\<close>

section \<open>The process\<close>

text \<open>
  \<open>en_opens\<close> is the outcome of \<open>net.Listen\<close> for an address, \<open>en_scan\<close> the queue as the
  dispatcher's first scan sees it at each index.
\<close>

record ('db, 'l) environment =
  en_read :: "string \<Rightarrow> go_error + string"
  en_yaml :: "string \<Rightarrow> config \<times> go_error option"
  en_driver :: "'db sql_driver"
  en_limiter :: "'l rate_api"
  en_listen :: "string \<Rightarrow> go_error option"
  en_cwd :: string
  en_log_writable :: bool
  en_clock :: time
  en_scan :: "nat \<Rightarrow> message list"
  en_world :: world

text \<open>
  A running process: the HTTP server with the broker, the world and the dispatcher the other
  servers point to; the streaming loop; and, for the goroutines of the dispatcher, the
  subscription of its event loop (\<open>None\<close> when it was not started), the messages its workers are
  processing and the second read by a running retry loop.
\<close>

record ('db, 'l) process =
  pr_http :: "('l, 'db) http_server"
  pr_streamer :: streamer
  pr_dispatching :: "nat option"
  pr_working :: "message list"
  pr_retry_loop :: "int64 option"

datatype startup_error = ConfigFailed go_error | DatabaseFailed go_error | ListenFailed go_error

definition storage_breaker :: "('db, 'l) environment \<Rightarrow> config \<Rightarrow> circuit_breaker" where
  "storage_breaker en cfg =
     new_circuit_breaker ''Storage'' (cfg_threshold cfg) (seconds (cfg_timeout_seconds cfg))
       (join_path (en_cwd en) ''data/cb_log/cb_telemetry.log'') (en_log_writable en)"

definition network_breaker :: "('db, 'l) environment \<Rightarrow> config \<Rightarrow> circuit_breaker" where
  "network_breaker en cfg =
     new_circuit_breaker ''Network'' (cfg_threshold cfg) (seconds (cfg_timeout_seconds cfg))
       (join_path (en_cwd en) ''data/cb_log/cb_telemetry.log'') (en_log_writable en)"

definition database_path :: "('db, 'l) environment \<Rightarrow> string" where
  "database_path en = join_path (en_cwd en) ''data/db/mbg.db''"

text \<open>The broker: recovered from its directories, then configured.\<close>

definition start_broker :: "('db, 'l) environment \<Rightarrow> config \<Rightarrow> world \<Rightarrow> bw" where
  "start_broker en cfg w =
     apfst (set_config (cfg_max_queue_size cfg) (cfg_ack_timeout_seconds cfg))
       (new_broker (cfg_storage_path cfg) (cfg_dead_letter_path cfg)
          (Some (storage_breaker en cfg)) w)"

text \<open>
  \<open>main\<close> up to the point where both servers listen.  \<open>Start\<close> runs in a goroutine; here it has
  reached its loop.
\<close>

definition start_process ::
  "('db, 'l) environment \<Rightarrow> bool \<Rightarrow> startup_error + ('db, 'l) process" where
  "start_process en noDispatcher =
     (case load_config (en_read en) (en_yaml en) ''config/config.yaml'' of
        (None, err) \<Rightarrow> Inl (ConfigFailed (the err))
      | (Some cfg, Some e) \<Rightarrow> Inl (ConfigFailed e)
      | (Some cfg, None) \<Rightarrow>
          let w = en_world en;
              w = w\<lparr>wdisk := os_mkdir_all ''data/cb_log'' (wdisk w)\<rparr>;
              w = w\<lparr>wdisk := os_mkdir_all ''data/db'' (wdisk w)\<rparr>
          in (case new_target_storage (en_driver en) (database_path en) of
                Inl e \<Rightarrow> Inl (DatabaseFailed e)
              | Inr db \<Rightarrow>
                  let bw = start_broker en cfg w;
                      disp = new_dispatcher (en_clock en) cfg (network_breaker en cfg) (Some db);
                      (sub, disp, bw) =
                        (if \<not> noDispatcher then
                           (case start_dispatcher (get_all_targets (en_driver en)) (en_clock en)
                                   (en_scan en) disp bw of
                              (i, disp, bw) \<Rightarrow> (Some i, disp, bw))
                         else (None, disp, bw))
                  in (case en_listen en ('':'' @ print_int (cfg_grpc_port cfg)) of
                        Some e \<Rightarrow> Inl (ListenFailed e)
                      | None \<Rightarrow>
                          (case start_streaming
                                  (new_http_server (en_limiter en) bw (Some disp) (Some cfg)) of
                             (st, s) \<Rightarrow>
                               Inr \<lparr>pr_http = s, pr_streamer = st, pr_dispatching = sub,
                                    pr_working = [], pr_retry_loop = None\<rparr>))))"

section \<open>Running\<close>

text \<open>The system of \<open>Dispatch_Runs\<close> inside a process whose dispatcher was started.\<close>

definition process_system :: "('db, 'l) process \<Rightarrow> 'db system option" where
  "process_system p =
     (case (hs_dispatcher (pr_http p), pr_dispatching p) of
        (Some d, Some i) \<Rightarrow>
          Some \<lparr>sys_disp = d, sys_broker = hs_broker (pr_http p), sys_world = hs_world (pr_http p),
                working = pr_working p, retry_loop = pr_retry_loop p, sub_id = i\<rparr>
      | _ \<Rightarrow> None)"

definition put_system :: "'db system \<Rightarrow> ('db, 'l) process \<Rightarrow> ('db, 'l) process" where
  "put_system s p =
     p\<lparr>pr_http := (pr_http p)\<lparr>hs_broker := sys_broker s, hs_world := sys_world s,
                              hs_dispatcher := Some (sys_disp s)\<rparr>,
       pr_working := working s, pr_retry_loop := retry_loop s\<rparr>"

text \<open>
  What can happen next: a request on either server, a tick of the timeout checker, a step of
  the dispatcher's event loop or workers, a background save, a step of the streaming loop, a
  client that connects to or leaves the stream.
\<close>

datatype process_label =
    HttpRequest request_env string string string
  | GrpcPush time time time push_request
  | GrpcPop time
  | GrpcAck string
  | GrpcNack string
  | Tick time "string list"
  | Dispatch dispatch_label
  | SaveTarget nat
  | BrokerUpdate time
  | DispatcherUpdate time
  | StreamTimer time "string list"
  | Connect nat
  | Disconnect nat

fun own_step :: "dispatch_label \<Rightarrow> bool" where
  "own_step Receive = True"
| "own_step (TimerFires t) = True"
| "own_step (RetryTurn t) = True"
| "own_step TakeTask = True"
| "own_step (FinishTask i env) = True"
| "own_step _ = False"

definition on_http :: "(('l, 'db) http_server \<Rightarrow> ('l, 'db) http_server) \<Rightarrow> ('db, 'l) process \<Rightarrow> ('db, 'l) process" where
  "on_http f p = p\<lparr>pr_http := f (pr_http p)\<rparr>"

definition on_bw :: "(bw \<Rightarrow> bw) \<Rightarrow> ('l, 'db) http_server \<Rightarrow> ('l, 'db) http_server" where
  "on_bw f s = (case f (hs_broker s, hs_world s) of (b, w) \<Rightarrow> s\<lparr>hs_broker := b, hs_world := w\<rparr>)"

text \<open>A step of the streaming loop on a signal, and on the timer with the broadcast it makes.\<close>

definition stream_step ::
  "(streamer \<times> ('l, 'db) http_server \<Rightarrow> (streamer \<times> ('l, 'db) http_server) option)
     \<Rightarrow> ('db, 'l) process \<Rightarrow> ('db, 'l) process option" where
  "stream_step f p =
     map_option (\<lambda>(st, s). p\<lparr>pr_streamer := st, pr_http := s\<rparr>) (f (pr_streamer p, pr_http p))"

definition timer_step ::
  "time \<Rightarrow> string list \<Rightarrow> ('db, 'l) process \<Rightarrow> (broadcast_result \<times> ('db, 'l) process) option" where
  "timer_step now order p =
     map_option (\<lambda>(r, st). (r, p\<lparr>pr_streamer := st\<rparr>)) (take_timer now order (pr_streamer p, pr_http p))"

fun process_step :: "('db, 'l) environment \<Rightarrow> process_label \<Rightarrow> ('db, 'l) process \<Rightarrow> ('db, 'l) process option" where
  "process_step en (HttpRequest env meth path body) p =
     Some (on_http (\<lambda>s. snd (serve (en_limiter en) env meth path body s)) p)"
| "process_step en (GrpcPush now t0 t1 req) p = Some (on_http (on_bw (\<lambda>bw. snd (grpc_push now t0 t1 req bw))) p)"
| "process_step en (GrpcPop now) p = Some (on_http (on_bw (\<lambda>bw. snd (grpc_pop now bw))) p)"
| "process_step en (GrpcAck i) p = Some (on_http (on_bw (\<lambda>bw. snd (grpc_ack i bw))) p)"
| "process_step en (GrpcNack i) p = Some (on_http (on_bw (\<lambda>bw. snd (grpc_nack i bw))) p)"
| "process_step en (Tick now order) p = Some (on_http (on_bw (timeout_tick now order)) p)"
| "process_step en (Dispatch l) p =
     (if own_step l then
        Option.bind (process_system p) (\<lambda>s.
          map_option (\<lambda>s. put_system s p) (dispatch_step (save_target (en_driver en)) l s))
      else None)"
| "process_step en (SaveTarget i) p =
     Some (on_http (\<lambda>s. s\<lparr>hs_dispatcher :=
       map_option (run_save_job (save_target (en_driver en)) i) (hs_dispatcher s)\<rparr>) p)"
| "process_step en (BrokerUpdate now) p = stream_step (take_broker_update now) p"
| "process_step en (DispatcherUpdate now) p = stream_step (take_dispatcher_update now) p"
| "process_step en (StreamTimer now order) p = map_option snd (timer_step now order p)"
| "process_step en (Connect c) p = Some (on_http (ws_connect c) p)"
| "process_step en (Disconnect c) p = Some (on_http (ws_remove c) p)"

text \<open>The states a process can get into.\<close>

inductive reachable :: "('db, 'l) environment \<Rightarrow> bool \<Rightarrow> ('db, 'l) process \<Rightarrow> bool"
  for en noDispatcher where
  started: "start_process en noDispatcher = Inr p \<Longrightarrow> reachable en noDispatcher p"
| stepped: "reachable en noDispatcher p \<Longrightarrow> process_step en l p = Some p' \<Longrightarrow> reachable en noDispatcher p'"

end
