(* ===== verification/Gatekeeper.thy ===== *)
theory Gatekeeper
  imports Http_Server
begin

text \<open>
  What the gatekeeper of \<open>handleRegisterTarget\<close> (\<open>pkg/server/http.go\<close>) keeps out: the bytes of
  parsed addresses, the private ranges in terms of them, and the hosts of the targets that are
  registered under an allow-list.
\<close>

section \<open>Addresses\<close>

lemma parse_octet_bound: "parse_octet s = Some n \<Longrightarrow> n < 256"
  by (auto simp: parse_octet_def split: if_splits)

lemma parse_ipv4_bytes: "parse_ipv4 s = Some b \<Longrightarrow> length b = 4 \<and> (\<forall>x \<in> set b. x < 256)"
proof -
  assume "parse_ipv4 s = Some b"
  then obtain x y z t where "map parse_octet (split_on CHR ''.'' s) = [Some x, Some y, Some z, Some t]"
    "b = [x, y, z, t]"
    by (auto simp: parse_ipv4_def split: list.splits option.splits)
  then show ?thesis using parse_octet_bound by (auto simp: map_eq_Cons_conv)
qed

lemma hex_digit_val_bound: "hex_digit_val c = Some n \<Longrightarrow> n < 16"
  by (auto simp: hex_digit_val_def Let_def split: if_splits)

lemma hex_val_of_snoc: "hex_val_of (ds @ [c]) = 16 * hex_val_of ds + the (hex_digit_val c)"
  by (simp add: hex_val_of_def)

lemma hex_val_of_bound: "\<forall>c \<in> set ds. hex_digit_val c \<noteq> None \<Longrightarrow> hex_val_of ds < 16 ^ length ds"
proof (induction ds rule: rev_induct)
  case (snoc c ds)
  then obtain n where "hex_digit_val c = Some n" "n < 16" using hex_digit_val_bound by auto
  moreover have "hex_val_of ds < 16 ^ length ds" using snoc by simp
  ultimately show ?case by (simp add: hex_val_of_snoc)
qed (simp add: hex_val_of_def)

lemma hex_group_byte:
  assumes "length (takeWhile (\<lambda>c. hex_digit_val c \<noteq> None) s) \<le> 4"
  shows "hex_val_of (takeWhile (\<lambda>c. hex_digit_val c \<noteq> None) s) div 256 < 256"
proof -
  let ?ds = "takeWhile (\<lambda>c. hex_digit_val c \<noteq> None) s"
  have "hex_val_of ?ds < 16 ^ length ?ds"
    by (rule hex_val_of_bound) (auto dest: set_takeWhileD)
  also have "(16 :: nat) ^ length ?ds \<le> 16 ^ 4" using assms by (intro power_increasing) simp_all
  finally show ?thesis by simp
qed

lemma parse_groups_bytes:
  assumes "parse_groups acc ell s = Some (b, e)" "\<forall>x \<in> set acc. x < 256"
  shows "\<forall>x \<in> set b. x < 256"
  using assms
proof (induction "16 - length acc" arbitrary: acc ell s rule: less_induct)
  case less
  define ds r where ds: "ds = takeWhile (\<lambda>c. hex_digit_val c \<noteq> None) s"
    and r: "r = dropWhile (\<lambda>c. hex_digit_val c \<noteq> None) s"
  define acc1 where acc1: "acc1 = acc @ [hex_val_of ds div 256, hex_val_of ds mod 256]"
  note eq = parse_groups.simps [of acc ell s, unfolded Let_def, folded ds r acc1]
  show ?case
  proof (cases "16 \<le> length acc \<or> ds = [] \<or> 4 < length ds \<or> (r \<noteq> [] \<and> hd r = CHR ''.'')")
    case True
    then show ?thesis
      using less.prems parse_ipv4_bytes [of s]
      by (subst (asm) eq) (auto split: if_splits option.splits)
  next
    case False
    then have shorter: "16 - length acc1 < 16 - length acc" unfolding acc1 by simp linarith
    have acc1_ok: "\<forall>x \<in> set acc1. x < 256"
      using False less.prems(2) hex_group_byte [of s] by (simp add: acc1 ds)
    note step = less.prems(1) [unfolded eq]
    consider "b = acc1" | ell1 s1 where "parse_groups acc1 ell1 s1 = Some (b, e)"
    proof (cases r)
      case Nil
      with step False show ?thesis by (intro that(1)) (simp add: acc1)
    next
      case (Cons c r1)
      show ?thesis
      proof (cases r1)
        case Nil
        with step False Cons show ?thesis by (simp split: if_splits)
      next
        case (Cons c1 r2)
        with step False \<open>r = c # r1\<close> that [unfolded acc1] show ?thesis by (auto split: if_splits)
      qed
    qed
    then show ?thesis
    proof cases
      case 1
      with acc1_ok show ?thesis by simp
    next
      case 2
      then show ?thesis using less.hyps [OF shorter] acc1_ok by blast
    qed
  qed
qed

lemma parse_ip_bytes:
  assumes "parse_ip s = Some ip"
  shows "\<forall>x \<in> set ip. x < 256"
proof -
  have expand: "\<forall>x \<in> set ip. x < 256"
    if "parse_groups [] ell t = Some p" "expand_ellipsis p = Some ip" for ell t p
  proof -
    obtain bs e where p: "p = (bs, e)" by (cases p)
    then have bs: "\<forall>x \<in> set bs. x < 256" using parse_groups_bytes that(1) by fastforce
    have "set (take k bs) \<subseteq> set bs" "set (drop k bs) \<subseteq> set bs" for k
      by (simp_all add: set_take_subset set_drop_subset)
    with bs show ?thesis
      using that(2) p by (cases e) (fastforce simp: expand_ellipsis_def split: if_splits)+
  qed
  have v6: "\<forall>x \<in> set ip. x < 256" if "parse_ipv6 s = Some ip"
    using that expand by (auto simp: parse_ipv6_def bind_eq_Some_conv split: if_splits)
  show ?thesis
    using assms v6 parse_ipv4_bytes [of s]
    by (auto simp: parse_ip_def v4_mapped_def split: list.splits if_splits)
qed

lemma to4_bytes: "to4 ip = Some b \<Longrightarrow> set b \<subseteq> set ip"
  by (auto simp: to4_def split: if_splits dest: in_set_dropD)

lemma v4_number_bytes:
  assumes "b < 256" "c < 256" "d < 256"
  shows "v4_number [a, b, c, d] div 2 ^ 24 = a"
    "v4_number [a, b, c, d] div 2 ^ 16 = 256 * a + b"
    "v4_number [a, b, c, d] div 2 ^ 20 = 16 * a + b div 16"
  using assms by (simp_all add: v4_number_def)

text \<open>The private addresses, range by range.\<close>

lemma is_private_v4:
  assumes "to4 ip = Some [a, b, c, d]" "b < 256" "c < 256" "d < 256"
  shows "is_private_ip ip \<longleftrightarrow>
     a = 10 \<or> a = 127 \<or> a = 169 \<and> b = 254 \<or> a = 172 \<and> 16 \<le> b \<and> b < 32 \<or>
     a = 192 \<and> b = 168 \<or> a = 224 \<and> b = 0 \<and> c = 0"
proof -
  have net: "v4_net_contains base bits ip \<longleftrightarrow>
      v4_number [a, b, c, d] div 2 ^ (32 - bits) = v4_number base div 2 ^ (32 - bits)" for base bits
    using assms(1) by (simp add: v4_net_contains_def)
  have "v4_net_contains [10, 0, 0, 0] 8 ip \<longleftrightarrow> a = 10"
    using net [of _ 8] v4_number_bytes [OF assms(2-4), of a] v4_number_bytes [of 0 0 0 10] by simp
  moreover have "16 * a + q = 2753 \<longleftrightarrow> a = 172 \<and> q = 1" if "q < 16" for q
    using that by (cases "a \<le> 171"; cases "a = 172"; simp)
  then have "16 * a + b div 16 = 2753 \<longleftrightarrow> a = 172 \<and> 16 \<le> b \<and> b < 32"
    using assms(2) by (simp add: div_nat_eqI) linarith
  then have "v4_net_contains [172, 16, 0, 0] 12 ip \<longleftrightarrow> a = 172 \<and> 16 \<le> b \<and> b < 32"
    using net [of _ 12] v4_number_bytes [OF assms(2-4), of a] v4_number_bytes [of 16 0 0 172] by simp
  moreover have "256 * a + b = 49320 \<longleftrightarrow> a = 192 \<and> b = 168"
    using assms(2) by (cases "a \<le> 191"; cases "a = 192"; simp)
  then have "v4_net_contains [192, 168, 0, 0] 16 ip \<longleftrightarrow> a = 192 \<and> b = 168"
    using net [of _ 16] v4_number_bytes [OF assms(2-4), of a] v4_number_bytes [of 168 0 0 192] by simp
  moreover have "is_loopback ip \<longleftrightarrow> a = 127" "is_link_local_unicast ip \<longleftrightarrow> a = 169 \<and> b = 254"
    "is_link_local_multicast ip \<longleftrightarrow> a = 224 \<and> b = 0 \<and> c = 0"
    using assms(1)
    by (simp_all add: is_loopback_def is_link_local_unicast_def is_link_local_multicast_def)
  ultimately show ?thesis by (simp add: is_private_ip_def) blast
qed

section \<open>Property\<close>

lemma localhost_no_address [simp]: "parse_ip ''localhost'' = None"
  by code_simp

lemma is_localhost_allowed_address:
  "is_localhost_allowed host domains \<Longrightarrow> parse_ip host = Some ip \<Longrightarrow> host = ''127.0.0.1''"
  by (auto simp: is_localhost_allowed_def list_ex_iff)

lemma gatekeeper_None:
  assumes "gatekeeper domains url = None" "domains \<noteq> []"
  obtains host where "url_hostname url = Some host" "host \<in> set domains"
    "\<And>ip. parse_ip host = Some ip \<Longrightarrow> is_private_ip ip \<Longrightarrow> host = ''127.0.0.1''"
proof (cases "url_hostname url")
  case (Some host)
  with assms that show ?thesis
    using is_localhost_allowed_address [of host domains]
    by (auto simp: gatekeeper_def split: if_splits option.splits)
qed (use assms in \<open>simp add: gatekeeper_def\<close>)

lemma register_target_created:
  assumes "handle_register_target bytes s = (r, s')" "rs_status r = 201"
  obtains tc d where "gatekeeper (hs_domains s) (tc_url tc) = None" "hs_dispatcher s = Some d"
    "s' = s\<lparr>hs_dispatcher := Some (add_target tc d)\<rparr>"
proof (cases "decode_body None (decode_struct target_field zero_target) bytes")
  case (Inr tc)
  note run = assms(1) [unfolded handle_register_target_def Inr sum.case]
  show ?thesis
  proof (cases "gatekeeper (hs_domains s) (tc_url tc)")
    case None
    note run = run [unfolded None option.case]
    show ?thesis
      using run assms(2) that [OF None]
      by (cases "hs_dispatcher s") (auto simp: http_error_def split: if_splits)
  next
    case (Some g)
    then have "rs_status g \<noteq> 201"
      by (auto simp: gatekeeper_def http_error_def split: if_splits option.splits)
    with run [unfolded Some option.case] assms(2) show ?thesis
      by (auto simp: http_error_def split: if_splits)
  qed
next
  case (Inl e)
  from assms(1) [unfolded handle_register_target_def Inl sum.case] assms(2) show ?thesis
    by (auto simp: http_error_def)
qed

text \<open>
  C7: under an allow-list, only listed hosts are registered and no private address but the
  listed \<open>127.0.0.1\<close>.  When a registration is answered with 201 and the list is not empty, the
  dispatcher gets exactly one target, the host of its URL is on the list, and if that host is
  an address that stands for the IPv4 address \<open>a.b.c.e\<close> (written dotted, or embedded in IPv6)
  then it is \<open>127.0.0.1\<close> or outside \<open>10/8\<close>, \<open>127/8\<close>, \<open>169.254/16\<close>, \<open>172.16/12\<close>, \<open>192.168/16\<close>
  and \<open>224.0.0/24\<close>.
\<close>

theorem ssrf_guard:
  assumes "handle_register_target bytes s = (r, s')" "rs_status r = 201" "hs_domains s \<noteq> []"
  shows "\<exists>tc d host. hs_dispatcher s = Some d \<and> s' = s\<lparr>hs_dispatcher := Some (add_target tc d)\<rparr> \<and>
    url_hostname (tc_url tc) = Some host \<and> host \<in> set (hs_domains s) \<and>
    (\<forall>ip a b c e. parse_ip host = Some ip \<and> to4 ip = Some [a, b, c, e] \<and> host \<noteq> ''127.0.0.1'' \<longrightarrow>
       a \<notin> {10, 127} \<and> \<not> (a = 169 \<and> b = 254) \<and> \<not> (a = 172 \<and> 16 \<le> b \<and> b < 32) \<and>
       \<not> (a = 192 \<and> b = 168) \<and> \<not> (a = 224 \<and> b = 0 \<and> c = 0))"
proof -
  obtain tc d where reg: "gatekeeper (hs_domains s) (tc_url tc) = None" "hs_dispatcher s = Some d"
    "s' = s\<lparr>hs_dispatcher := Some (add_target tc d)\<rparr>"
    using register_target_created [OF assms(1,2)] by metis
  obtain host where host: "url_hostname (tc_url tc) = Some host" "host \<in> set (hs_domains s)"
    "\<And>ip. parse_ip host = Some ip \<Longrightarrow> is_private_ip ip \<Longrightarrow> host = ''127.0.0.1''"
    using gatekeeper_None [OF reg(1) assms(3)] by metis
  have "a \<notin> {10, 127} \<and> \<not> (a = 169 \<and> b = 254) \<and> \<not> (a = 172 \<and> 16 \<le> b \<and> b < 32) \<and>
       \<not> (a = 192 \<and> b = 168) \<and> \<not> (a = 224 \<and> b = 0 \<and> c = 0)"
    if "parse_ip host = Some ip" "to4 ip = Some [a, b, c, e]" "host \<noteq> ''127.0.0.1''" for ip a b c e
  proof -
    have "b < 256" "c < 256" "e < 256"
      using parse_ip_bytes [OF that(1)] to4_bytes [OF that(2)] by auto
    from is_private_v4 [OF that(2) this] show ?thesis using host(3) [OF that(1)] that(3) by blast
  qed
  then show ?thesis using reg(2,3) host(1,2) by blast
qed

definition demo_api :: "unit rate_api" where
  "demo_api = \<lparr>new_limiter = (\<lambda>_ _. ()), allow = (\<lambda>_ _. (True, ()))\<rparr>"

definition demo_server :: "(unit, (string \<times> string \<times> string option) list) http_server" where
  "demo_server = new_http_server demo_api (demo_broker, demo_world) (Some demo_dispatcher)
     (Some (demo_config\<lparr>cfg_allowed_domains := [''api.partner.com'']\<rparr>))"

definition register_body :: string where
  "register_body = print_json (JObj [(''name'', JStr ''p''), (''url'', JStr ''https://api.partner.com/in'')])"

lemma ssrf_guard_witness:
  "\<exists>(tc :: target_config) host. url_hostname (tc_url tc) = Some host \<and> host \<in> set [''api.partner.com'']"
proof -
  obtain r s' where run: "handle_register_target register_body demo_server = (r, s')" by fastforce
  have "rs_status (fst (handle_register_target register_body demo_server)) = 201" by code_simp
  then have created: "rs_status r = 201" by (simp add: run)
  have domains: "hs_domains demo_server = [''api.partner.com'']" by code_simp
  then have listed: "hs_domains demo_server \<noteq> []" by simp
  from ssrf_guard [OF run created listed] obtain tc :: target_config and host
    where "url_hostname (tc_url tc) = Some host" "host \<in> set (hs_domains demo_server)"
    by blast
  then show ?thesis unfolding domains by blast
qed

end
