(* ===== verification/Well_Formed.thy ===== *)
theory Well_Formed
  imports Dispatch_Runs Target_Registry
begin

text \<open>
  Well-formed states: the pending map and the channels of the broker, the targets, the task
  channel and the retry heap of the dispatcher.  Every operation of either keeps them, whoever
  calls it.
\<close>

section \<open>The broker\<close>

definition broker_ok :: "broker \<Rightarrow> bool" where
  "broker_ok b \<longleftrightarrow> pending_ok b \<and> channels_ok b"

lemma broker_ok_notify [simp]: "broker_ok b \<Longrightarrow> broker_ok (notify b)"
  by (simp add: broker_ok_def)

lemma broker_ok_messages [simp]: "broker_ok (b\<lparr>messages := ms\<rparr>) = broker_ok b"
  by (simp add: broker_ok_def pending_ok_def)

lemma broker_ok_cb [simp]: "broker_ok (b\<lparr>cb := c\<rparr>) = broker_ok b"
  by (simp add: broker_ok_def pending_ok_def)

lemma broker_ok_dlq_size [simp]: "broker_ok (b\<lparr>dlq_size := n\<rparr>) = broker_ok b"
  by (simp add: broker_ok_def pending_ok_def)

lemma broker_ok_delete [simp]:
  "broker_ok b \<Longrightarrow> broker_ok (b\<lparr>pending_acks := AList.delete i (pending_acks b)\<rparr>)"
  by (auto simp: broker_ok_def pending_ok_def set_delete)

lemma broker_ok_update [simp]:
  "broker_ok b \<Longrightarrow> msg_id (pm_message p) = i \<Longrightarrow>
     broker_ok (b\<lparr>pending_acks := AList.update i p (pending_acks b)\<rparr>)"
  by (auto simp: broker_ok_def pending_ok_def set_update_map_ok)

lemma broker_ok_push:
  assumes "push t0 t1 m (b, w) = (r, b', w')" "broker_ok b"
  shows "broker_ok b'"
proof -
  have "channels_ok b'"
    using assms(1)
  proof (cases rule: push_cases)
    case (refused c)
    then show ?thesis using assms(2) by (simp add: broker_ok_def)
  next
    case (ran b1)
    from ran(1) have "channels_ok b1"
    proof (cases rule: do_push_cases)
      case (pushed d)
      then have "b1 = fst (push_commit m (b, w\<lparr>wdisk := d\<rparr>))" by (metis fst_conv)
      then show ?thesis using assms(2) by (simp add: push_commit_def Let_def broker_ok_def)
    qed (use assms(2) in \<open>simp_all add: broker_ok_def\<close>)
    then show ?thesis by (subst ran(2)) simp
  qed
  then show ?thesis using push_frame [OF assms(1)] assms(2) by (simp add: broker_ok_def pending_ok_def)
qed

lemma channels_ok_fold_requeue:
  "channels_ok b \<Longrightarrow> channels_ok (fold (requeue_expired now) order b)"
  by (simp add: channels_ok_def)

lemma broker_ok_tick:
  "broker_ok b \<Longrightarrow> broker_ok (fst (timeout_tick now order (b, w)))"
  by (simp add: timeout_tick_eq broker_ok_def pending_ok_fold_requeue channels_ok_fold_requeue)

lemma broker_ok_subscribe [simp]:
  "broker_ok b \<Longrightarrow> broker_ok (snd (subscribe b))"
  "broker_ok b \<Longrightarrow> broker_ok (snd (subscribe_messages b))"
  by (auto simp: broker_ok_def pending_ok_def channels_ok_def subscribe_def subscribe_messages_def)

lemma broker_ok_config [simp]:
  "broker_ok (set_config n k b) = broker_ok b"
  "broker_ok (broker_reset t b) = broker_ok b"
  "broker_ok (broker_reset_config t n d b) = broker_ok b"
  "broker_ok (set_storage_path p b) = broker_ok b"
  by (simp_all add: broker_ok_def pending_ok_def channels_ok_def set_storage_path_def)

lemma run_op_ok:
  assumes "run_op op (b, w) = (r, b', w')" "broker_ok b"
  shows "broker_ok b'"
proof (cases op)
  case (OpPush t0 t1 m)
  then show ?thesis using assms by (auto simp: run_op_Pair dest: broker_ok_push)
next
  case (OpPop t)
  then obtain r1 where "pop t (b, w) = (r1, b', w')" using assms(1) by (auto simp: run_op_Pair)
  then show ?thesis
  proof (cases rule: pop_cases)
    case (taken m rest)
    have "broker_ok ((b\<lparr>messages := rest\<rparr>)\<lparr>pending_acks :=
        AList.update (msg_id m) \<lparr>pm_message = m, pm_pop_time = t\<rparr> (pending_acks (b\<lparr>messages := rest\<rparr>))\<rparr>)"
      using assms(2) by (intro broker_ok_update) simp_all
    with taken show ?thesis by simp
  qed (use assms(2) in simp)
next
  case (OpAck i)
  then obtain r1 where "acknowledge i (b, w) = (r1, b', w')" using assms(1) by (auto simp: run_op_Pair)
  then show ?thesis by (cases rule: acknowledge_cases) (use assms(2) in simp_all)
next
  case (OpNack i)
  then obtain r1 where "negative_acknowledge i (b, w) = (r1, b', w')"
    using assms(1) by (auto simp: run_op_Pair)
  then show ?thesis
  proof (cases rule: negative_acknowledge_cases)
    case (pending p)
    have "broker_ok ((b\<lparr>pending_acks := AList.delete i (pending_acks b)\<rparr>)\<lparr>messages := pm_message p # messages b\<rparr>)"
      using assms(2) by simp
    with pending show ?thesis by simp
  qed (use assms(2) in simp)
next
  case (OpTick t order)
  then show ?thesis using assms broker_ok_tick [OF assms(2), of t order w] by simp
next
  case (OpDlq i)
  then obtain r1 where "move_to_dlq i (b, w) = (r1, b', w')" using assms(1) by (auto simp: run_op_Pair)
  then show ?thesis by (cases rule: move_to_dlq_cases) (use assms(2) in \<open>simp_all add: dlq_count_def\<close>)
next
  case (OpUpdate m)
  then obtain r1 where "update_message m (b, w) = (r1, b', w')" using assms(1) by (auto simp: run_op_Pair)
  then show ?thesis by (cases rule: update_message_cases) (use assms(2) in simp_all)
qed (use assms in auto)

lemma broker_ok_new: "broker_ok (fst (new_broker p q c w))"
  by (auto simp: new_broker_def recover_def empty_broker_def broker_ok_def pending_ok_def
      channels_ok_def Let_def split: sum.split)

section \<open>The dispatcher\<close>

definition dispatcher_ok :: "'s dispatcher \<Rightarrow> bool" where
  "dispatcher_ok d \<longleftrightarrow> targets_ok (d_targets d) \<and> heap_ordered msg_less (retry_heap d) \<and>
     chan_ok (task_chan d) \<and> chan_cap (task_chan d) = 100 \<and>
     (\<forall>c \<in> set (d_listeners d). chan_ok c \<and> chan_cap c = 1)"

lemma schedule_retry_ok: "dispatcher_ok d \<Longrightarrow> dispatcher_ok (schedule_retry t m d)"
  by (simp add: dispatcher_ok_def schedule_retry_def Let_def retry.push_ordered)

lemma retry_turn_ok:
  assumes "retry_turn now t d = (goes_on, d')" "dispatcher_ok d"
  shows "dispatcher_ok d'"
proof -
  have ord: "heap_ordered msg_less (retry_heap d)" using assms(2) by (simp add: dispatcher_ok_def)
  from assms(1) ord show ?thesis
  proof (cases rule: retry_turn_cases)
    case (sent h)
    then show ?thesis using assms(2) retry.pop_spec [OF ord sent(4)] by (simp add: dispatcher_ok_def)
  next
    case (full h)
    have "dispatcher_ok (d\<lparr>retry_heap := h\<rparr>)"
      using assms(2) retry.pop_spec [OF ord full(4)] by (simp add: dispatcher_ok_def)
    with full show ?thesis by (simp add: schedule_retry_ok)
  qed (use assms(2) in \<open>simp_all add: dispatcher_ok_def\<close>)
qed

lemma add_target_ok: "dispatcher_ok d \<Longrightarrow> dispatcher_ok (add_target tc d)"
  by (auto simp: dispatcher_ok_def add_target_def Let_def d_notify_def targets_ok_update)

lemma run_save_job_ok: "dispatcher_ok d \<Longrightarrow> dispatcher_ok (run_save_job save i d)"
  by (simp add: dispatcher_ok_def run_save_job_def split: option.split)

lemma d_reset_ok [simp]:
  "dispatcher_ok (d_reset t d) = dispatcher_ok d"
  "dispatcher_ok (d_reset_config t n k d) = dispatcher_ok d"
  by (simp_all add: dispatcher_ok_def d_reset_def d_reset_config_def)

lemma d_subscribe_ok: "dispatcher_ok d \<Longrightarrow> dispatcher_ok (snd (d_subscribe d))"
  by (auto simp: dispatcher_ok_def d_subscribe_def)

lemma d_cb_ok [simp]: "dispatcher_ok (d\<lparr>d_cb := c\<rparr>) = dispatcher_ok d"
  by (simp add: dispatcher_ok_def)

lemma release_ok [simp]: "dispatcher_ok (release m d) = dispatcher_ok d"
  by (simp add: dispatcher_ok_def release_def)

lemma new_dispatcher_ok: "dispatcher_ok (new_dispatcher t cfg breaker st)"
  by (simp add: dispatcher_ok_def new_dispatcher_def targets_ok_put)

lemma load_targets_ok: "dispatcher_ok d \<Longrightarrow> dispatcher_ok (load_targets load d)"
  by (simp add: dispatcher_ok_def load_targets_def targets_ok_put split: option.split sum.split)

lemma try_send_ok: "try_send x c = (ok, c') \<Longrightarrow> chan_ok c \<Longrightarrow> chan_ok c' \<and> chan_cap c' = chan_cap c"
  using chan_ok_send [of c x] chan_cap_send [of x c] by simp

lemma offer_ready_ok: "dispatcher_ok d \<Longrightarrow> dispatcher_ok (offer_ready now m d)"
  by (auto simp: dispatcher_ok_def offer_ready_def Let_def split: prod.split bool.split dest: try_send_ok)

lemma fill_task_queue_ok: "dispatcher_ok d \<Longrightarrow> dispatcher_ok (fill_task_queue now ms d)"
  unfolding fill_task_queue_def by (induction ms arbitrary: d) (simp_all add: offer_ready_ok)

lemma process_message_ok:
  assumes "process_message env msg (d, b, w) = (d', b', w')" "broker_ok b" "dispatcher_ok d"
  shows "broker_ok b' \<and> dispatcher_ok d'"
  using assms(1)
proof (cases rule: process_message_cases)
  case (delivered r breaker w1)
  have "run_op (OpAck (msg_id msg)) (b, w1) = (RErr (fst (acknowledge (msg_id msg) (b, w1))), b', w')"
    using delivered(5) by (simp add: prod_eq_iff)
  from run_op_ok [OF this assms(2)] show ?thesis using delivered assms(3) by simp
next
  case (failed r breaker)
  from failed(2) show ?thesis
  proof (cases rule: handle_failure_cases)
    case buried
    let ?x = "(b, inc_failed ''max_retries'' w)"
    have "run_op (OpDlq (msg_id msg)) ?x = (RErr (fst (move_to_dlq (msg_id msg) ?x)), b', w')"
      using buried(3) by (simp add: prod_eq_iff)
    from run_op_ok [OF this assms(2)] show ?thesis using buried assms(3) by simp
  next
    case (retried msg')
    let ?x = "(b, inc_failed ''retry'' w)"
    have "run_op (OpUpdate msg') ?x = (RErr (fst (update_message msg' ?x)), b', w')"
      using retried(4) by (simp add: prod_eq_iff)
    from run_op_ok [OF this assms(2)] show ?thesis
      using retried assms(3) by (simp add: schedule_retry_ok)
  qed
qed (use assms in simp)

section \<open>The system\<close>

text \<open>The workers are no more than configured, and the event loop has its subscription.\<close>

definition system_ok :: "'s system \<Rightarrow> bool" where
  "system_ok s \<longleftrightarrow> broker_ok (sys_broker s) \<and> dispatcher_ok (sys_disp s) \<and>
     sub_id s < length (msg_listeners (sys_broker s)) \<and>
     int (length (working s)) \<le> worker_count (d_cfg (sys_disp s))"


lemma process_message_cfg:
  assumes "process_message env msg (d, b, w) = (d', b', w')"
  shows "d_cfg d' = d_cfg d"
  using assms
proof (cases rule: process_message_cases)
  case (failed r breaker)
  from failed(2) show ?thesis by (cases rule: handle_failure_cases) simp_all
qed simp_all

lemma d_cfg_frame [simp]:
  "d_cfg (add_target tc d) = d_cfg d" "d_cfg (run_save_job save i d) = d_cfg d"
  "d_cfg (d_reset t d) = d_cfg d" "d_cfg (d_reset_config t n k d) = d_cfg d"
  by (simp_all add: add_target_def run_save_job_def d_reset_def d_reset_config_def Let_def
      split: option.split)

lemma retry_turn_cfg: "retry_turn now t d = (goes_on, d') \<Longrightarrow> d_cfg d' = d_cfg d"
  by (auto simp: retry_turn_def Let_def split: prod.splits bool.splits if_splits option.splits)

lemma dispatch_step_ok:
  assumes "dispatch_step save l s = Some s'" "system_ok s"
  shows "system_ok s'"
proof (cases l)
  case Receive
  with assms(1) obtain m c where recv: "try_recv (sub_chan s) = Some (m, c)"
    and s': "s' = s\<lparr>sys_broker := (sys_broker s)\<lparr>msg_listeners := (msg_listeners (sys_broker s))[sub_id s := c]\<rparr>,
        sys_disp := (sys_disp s)\<lparr>task_chan := send_or_drop m (task_chan (sys_disp s))\<rparr>\<rparr>"
    by (auto simp: step_receive_def Let_def split: if_splits option.splits)
  have "sub_chan s \<in> set (msg_listeners (sys_broker s))"
    using assms(2) by (simp add: sub_chan_def system_ok_def)
  then have "chan_ok c \<and> chan_cap c = 100"
    using assms(2) recv chan_ok_recv [OF _ recv] chan.recv_Some [OF recv]
    by (auto simp: system_ok_def broker_ok_def channels_ok_def)
  then show ?thesis using assms(2)
    by (auto simp: s' system_ok_def broker_ok_def pending_ok_def channels_ok_def dispatcher_ok_def
        dest!: set_update_subset_insert [THEN subsetD])
next
  case (TimerFires t)
  with assms show ?thesis
    by (auto simp: step_timer_def system_ok_def dispatcher_ok_def split: if_splits option.splits)
next
  case (RetryTurn t)
  with assms show ?thesis
    by (auto simp: step_retry_turn_def system_ok_def retry_turn_cfg split: option.splits prod.splits
        dest: retry_turn_ok)
next
  case TakeTask
  with assms show ?thesis
    by (auto simp: step_take_def system_ok_def dispatcher_ok_def dest: chan_ok_recv chan.recv_Some
        split: if_splits option.splits)
next
  case (FinishTask i env)
  then obtain d b w where i: "i < length (working s)"
    and pm: "process_message env (working s ! i) (sys_disp s, sys_broker s, sys_world s) = (d, b, w)"
    and s': "s' = s\<lparr>sys_disp := release (working s ! i) d, sys_broker := b, sys_world := w,
                     working := take i (working s) @ drop (Suc i) (working s)\<rparr>"
    using assms(1) by (auto simp: step_finish_def split: if_splits prod.splits)
  have "broker_ok b \<and> dispatcher_ok d" using process_message_ok [OF pm] assms(2) by (simp add: system_ok_def)
  then show ?thesis
    using assms(2) i process_message_cfg [OF pm] process_message_broker [OF pm]
    by (simp add: s' system_ok_def)
next
  case (BrokerCall op)
  then obtain r b w where op: "run_op op (sys_broker s, sys_world s) = (r, b, w)"
    and s': "s' = s\<lparr>sys_broker := b, sys_world := w\<rparr>"
    using assms(1) by (auto simp: step_call_def split: prod.splits)
  then show ?thesis
    using assms(2) run_op_ok [OF op] run_op_listeners [OF op, of "sub_id s"] by (simp add: system_ok_def)
qed (use assms in \<open>auto simp: on_disp_def system_ok_def add_target_ok run_save_job_ok\<close>)


lemma worker_count_pos: "0 < worker_count cfg"
  by (simp add: worker_count_def)

lemma start_dispatcher_ok:
  assumes "start_dispatcher load now q d (b, w) = (sub, d', b', w')" "dispatcher_ok d" "broker_ok b"
  shows "dispatcher_ok d'" "broker_ok b'" "sub < length (msg_listeners b')" "d_cfg d' = d_cfg d"
  using assms broker_ok_subscribe(2) [OF assms(3)]
  by (auto simp: start_dispatcher_def Let_def subscribe_messages_def fill_task_queue_ok load_targets_ok)

text \<open>Listeners are added and never removed.\<close>

lemma run_op_listener_count:
  assumes "run_op op (b, w) = (r, b', w')"
  shows "length (listeners b) \<le> length (listeners b')"
proof (cases op)
  case (OpPush t0 t1 m)
  then obtain r1 where push: "push t0 t1 m (b, w) = (r1, b', w')" using assms by (auto simp: run_op_Pair)
  then show ?thesis
  proof (cases rule: push_cases)
    case (ran b1)
    from ran(1) have "length (listeners b1) = length (listeners b)"
    proof (cases rule: do_push_cases)
      case (pushed d)
      then have "b1 = fst (push_commit m (b, w\<lparr>wdisk := d\<rparr>))" by (metis fst_conv)
      then show ?thesis by (simp add: push_commit_def Let_def notify_def)
    qed simp_all
    then show ?thesis by (subst ran(2)) simp
  qed simp
next
  case (OpPop t)
  then obtain r1 where "pop t (b, w) = (r1, b', w')" using assms by (auto simp: run_op_Pair)
  then show ?thesis by (cases rule: pop_cases) (simp_all add: notify_def)
next
  case (OpAck i)
  then obtain r1 where "acknowledge i (b, w) = (r1, b', w')" using assms by (auto simp: run_op_Pair)
  then show ?thesis by (cases rule: acknowledge_cases) (simp_all add: notify_def)
next
  case (OpNack i)
  then obtain r1 where "negative_acknowledge i (b, w) = (r1, b', w')" using assms by (auto simp: run_op_Pair)
  then show ?thesis by (cases rule: negative_acknowledge_cases) (simp_all add: notify_def)
next
  case (OpDlq i)
  then obtain r1 where "move_to_dlq i (b, w) = (r1, b', w')" using assms by (auto simp: run_op_Pair)
  then show ?thesis by (cases rule: move_to_dlq_cases) (simp_all add: notify_def dlq_count_def)
next
  case (OpUpdate m)
  then obtain r1 where "update_message m (b, w) = (r1, b', w')" using assms by (auto simp: run_op_Pair)
  then show ?thesis by (cases rule: update_message_cases) simp_all
qed (use assms in \<open>auto simp: timeout_tick_eq notify_def subscribe_def subscribe_messages_def\<close>)

end
