(* ===== verification/Http_Facts.thy ===== *)
theory Http_Facts
  imports Gatekeeper Well_Formed
begin

text \<open>
  What a request does to the server, whatever it asks for: which calls it makes on the broker
  and the dispatcher, what a failed request leaves alone, and that a message goes through the
  API unchanged.
\<close>

section \<open>Handlers as calls\<close>

lemma on_broker_cases:
  assumes "on_broker f s = (r, s')"
  obtains b w where "f (hs_broker s, hs_world s) = (r, b, w)" "s' = s\<lparr>hs_broker := b, hs_world := w\<rparr>"
  using assms by (cases "f (hs_broker s, hs_world s)") (auto simp: on_broker_def)

lemma rate_check_cases:
  assumes "rate_check api now s = (ok, s')"
  obtains l where "s' = s\<lparr>hs_limiter := l\<rparr>"
proof (cases "hs_limiter s")
  case None
  with assms that [of "hs_limiter s"] show ?thesis by (simp add: rate_check_def)
next
  case (Some l)
  with assms that show ?thesis by (auto simp: rate_check_def split: prod.splits)
qed

lemma handle_push_cases:
  assumes "handle_push api ck bytes s = (r, s')"
  obtains (limited) l where "s' = s\<lparr>hs_limiter := l\<rparr>" "r = http_error ''Rate limit exceeded'' 429"
  | (malformed) l e where "s' = s\<lparr>hs_limiter := l\<rparr>" "r = http_error e 400"
      "decode_body (Some (hs_max_payload s)) decode_message bytes = Inl e"
  | (pushed) l m e b w where
      "decode_body (Some (hs_max_payload s)) decode_message bytes = Inr m"
      "push (pc_start ck) (pc_end ck) (m\<lparr>created_at := unix (pc_created ck)\<rparr>)
         (hs_broker s, hs_world s) = (e, b, w)"
      "s' = s\<lparr>hs_limiter := l, hs_broker := b, hs_world := w\<rparr>"
      "r = (case e of Some e \<Rightarrow> http_error (error_text e) 500
            | None \<Rightarrow> json_response 201 (JObj [(''status'', JStr ''pushed'')]))"
proof -
  obtain ok s1 where rate: "rate_check api (pc_limit ck) s = (ok, s1)" by fastforce
  then obtain l where s1: "s1 = s\<lparr>hs_limiter := l\<rparr>" by (rule rate_check_cases)
  note run = assms [unfolded handle_push_def rate]
  show ?thesis
  proof (cases ok)
    case False
    with run s1 limited [of l] show ?thesis by simp
  next
    case True
    show ?thesis
    proof (cases "decode_body (Some (hs_max_payload s)) decode_message bytes")
      case (Inl e)
      with run True s1 malformed [of l e] show ?thesis by simp
    next
      case (Inr m)
      obtain e b w where push: "push (pc_start ck) (pc_end ck) (m\<lparr>created_at := unix (pc_created ck)\<rparr>)
          (hs_broker s, hs_world s) = (e, b, w)" by (metis prod_cases3)
      show ?thesis
        by (rule pushed [OF Inr push])
          (use run True Inr push s1 in \<open>auto simp: on_broker_def split: option.splits\<close>)
    qed
  qed
qed

text \<open>The four ways a request can act on the broker.\<close>

definition broker_call :: "('l, 's) http_server \<Rightarrow> ('l, 's) http_server \<Rightarrow> bool" where
  "broker_call s s' \<longleftrightarrow>
     hs_broker s' = hs_broker s \<and> hs_world s' = hs_world s \<or>
     (\<exists>op r. run_op op (hs_broker s, hs_world s) = (r, hs_broker s', hs_world s')) \<or>
     (\<exists>p. hs_broker s' = set_storage_path p (hs_broker s) \<and> hs_world s' = hs_world s)"

inductive dispatcher_change :: "('s dispatcher \<Rightarrow> 's dispatcher) \<Rightarrow> bool" where
  change_none: "dispatcher_change (\<lambda>d. d)"
| change_target: "dispatcher_change (add_target tc)"
| change_reset: "dispatcher_change (d_reset t)"
| change_config: "dispatcher_change (d_reset_config t n k)"

definition dispatcher_call :: "('l, 's) http_server \<Rightarrow> ('l, 's) http_server \<Rightarrow> bool" where
  "dispatcher_call s s' \<longleftrightarrow>
     (\<exists>f. hs_dispatcher s' = map_option f (hs_dispatcher s) \<and> dispatcher_change f)"

lemma dispatcher_callI:
  "hs_dispatcher s' = map_option f (hs_dispatcher s) \<Longrightarrow> dispatcher_change f \<Longrightarrow> dispatcher_call s s'"
  by (auto simp: dispatcher_call_def)

lemma dispatcher_call_same: "hs_dispatcher s' = hs_dispatcher s \<Longrightarrow> dispatcher_call s s'"
  by (rule dispatcher_callI [OF _ change_none]) (simp add: map_option.identity)

definition calls_only :: "('l, 's) http_server \<Rightarrow> ('l, 's) http_server \<Rightarrow> bool" where
  "calls_only s s' \<longleftrightarrow> broker_call s s' \<and> dispatcher_call s s' \<and> hs_conns s' = hs_conns s \<and>
     hs_domains s' = hs_domains s \<and> hs_max_payload s' = hs_max_payload s"

lemma calls_only_refl [simp]: "calls_only s s"
  by (simp add: calls_only_def broker_call_def dispatcher_call_same)

lemma calls_only_op:
  "run_op op (hs_broker s, hs_world s) = (r, b, w) \<Longrightarrow>
     calls_only s (s\<lparr>hs_limiter := l, hs_broker := b, hs_world := w\<rparr>)"
  "run_op op (hs_broker s, hs_world s) = (r, b, w) \<Longrightarrow>
     calls_only s (s\<lparr>hs_broker := b, hs_world := w\<rparr>)"
  by (auto simp: calls_only_def broker_call_def dispatcher_call_same)

lemma handle_push_calls: "handle_push api ck bytes s = (r, s') \<Longrightarrow> calls_only s s'"
proof (erule handle_push_cases)
  fix l m e b w
  assume "push (pc_start ck) (pc_end ck) (m\<lparr>created_at := unix (pc_created ck)\<rparr>)
      (hs_broker s, hs_world s) = (e, b, w)" "s' = s\<lparr>hs_limiter := l, hs_broker := b, hs_world := w\<rparr>"
  then show ?thesis
    using calls_only_op(1) [of "OpPush (pc_start ck) (pc_end ck) (m\<lparr>created_at := unix (pc_created ck)\<rparr>)" s]
    by simp
qed (simp_all add: calls_only_def broker_call_def dispatcher_call_same)

lemma handle_pop_cases:
  assumes "handle_pop now s = (r, s')"
  obtains x b w where "pop now (hs_broker s, hs_world s) = (x, b, w)" "s' = s\<lparr>hs_broker := b, hs_world := w\<rparr>"
    "r = (case x of Inl e \<Rightarrow> http_error (error_text e) 404 | Inr msg \<Rightarrow> json_response 200 (encode_message msg))"
  using assms by (auto simp: handle_pop_def on_broker_def split: prod.splits sum.splits)

text \<open>Acknowledgements decode an identifier, call the broker and report its error as 404.\<close>

lemma id_handler_cases:
  assumes "(case decode_body None f bytes of
        Inl e \<Rightarrow> (http_error e 400, s)
      | Inr i \<Rightarrow>
          (case on_broker (g i) s of
             (Some e, s) \<Rightarrow> (http_error (error_text e) 404, s)
           | (None, s) \<Rightarrow> (fine, s))) = (r, s')"
  obtains (malformed) e where "r = http_error e 400" "s' = s"
  | (called) i e b w where "decode_body None f bytes = Inr i"
      "g i (hs_broker s, hs_world s) = (e, b, w)" "s' = s\<lparr>hs_broker := b, hs_world := w\<rparr>"
      "r = (case e of Some e \<Rightarrow> http_error (error_text e) 404 | None \<Rightarrow> fine)"
proof (cases "decode_body None f bytes")
  case (Inl e)
  with assms malformed [of e] show ?thesis by simp
next
  case (Inr i)
  obtain e b w where run: "g i (hs_broker s, hs_world s) = (e, b, w)" by (metis prod_cases3)
  note h = assms [unfolded Inr sum.case on_broker_def run prod.case]
  show ?thesis by (rule called [OF Inr run]) (use h in \<open>cases e; simp\<close>)+
qed

lemmas handle_ack_cases [consumes 1, case_names malformed called] =
    id_handler_cases [OF handle_ack_def [symmetric, THEN trans]]
  and handle_nack_cases [consumes 1, case_names malformed called] =
    id_handler_cases [OF handle_nack_def [symmetric, THEN trans]]

lemma handle_ack_calls: "handle_ack bytes s = (r, s') \<Longrightarrow> calls_only s s'"
proof (erule handle_ack_cases)
  fix i e b w
  assume "acknowledge i (hs_broker s, hs_world s) = (e, b, w)" "s' = s\<lparr>hs_broker := b, hs_world := w\<rparr>"
  then show ?thesis using calls_only_op(2) [of "OpAck i" s] by simp
qed simp

lemma handle_nack_calls: "handle_nack bytes s = (r, s') \<Longrightarrow> calls_only s s'"
proof (erule handle_nack_cases)
  fix i e b w
  assume "negative_acknowledge i (hs_broker s, hs_world s) = (e, b, w)"
    "s' = s\<lparr>hs_broker := b, hs_world := w\<rparr>"
  then show ?thesis using calls_only_op(2) [of "OpNack i" s] by simp
qed simp

lemma handle_pop_calls: "handle_pop now s = (r, s') \<Longrightarrow> calls_only s s'"
proof (erule handle_pop_cases)
  fix x b w
  assume "pop now (hs_broker s, hs_world s) = (x, b, w)" "s' = s\<lparr>hs_broker := b, hs_world := w\<rparr>"
  then show ?thesis using calls_only_op(2) [of "OpPop now" s] by simp
qed

lemma handle_register_target_cases:
  assumes "handle_register_target bytes s = (r, s')"
  obtains (refused) "s' = s" "400 \<le> rs_status r"
  | (registered) tc d where "hs_dispatcher s = Some d" "rs_status r = 201"
      "s' = s\<lparr>hs_dispatcher := Some (add_target tc d)\<rparr>"
proof (cases "decode_body None (decode_struct target_field zero_target) bytes")
  case (Inl e)
  with assms refused show ?thesis by (auto simp: handle_register_target_def http_error_def)
next
  case (Inr tc)
  note run = assms [unfolded handle_register_target_def Inr sum.case]
  show ?thesis
  proof (cases "tc_name tc = '''' \<or> tc_url tc = ''''")
    case True
    with run refused show ?thesis by (auto simp: http_error_def)
  next
    case named: False
    show ?thesis
    proof (cases "gatekeeper (hs_domains s) (tc_url tc)")
      case (Some g)
      then have "400 \<le> rs_status g"
        by (auto simp: gatekeeper_def http_error_def split: if_splits option.splits)
      with run named Some refused show ?thesis by simp
    next
      case pass: None
      note run = run [unfolded pass if_not_P [OF named] option.case]
      show ?thesis
      proof (cases "hs_dispatcher s")
        case None
        with run have "s' = s" "r = http_error ''dispatcher not initialized'' 500" by simp_all
        then show ?thesis by (intro refused) (simp_all add: http_error_def)
      next
        case (Some d)
        with run show ?thesis by (intro registered [OF Some, of tc]) (auto simp: json_response_def)
      qed
    qed
  qed
qed

lemma handle_register_target_calls: "handle_register_target bytes s = (r, s') \<Longrightarrow> calls_only s s'"
proof (erule handle_register_target_cases)
  fix tc d
  assume "hs_dispatcher s = Some d" "s' = s\<lparr>hs_dispatcher := Some (add_target tc d)\<rparr>"
  then show ?thesis
    using dispatcher_callI [of s' "add_target tc" s, OF _ change_target]
    by (simp add: calls_only_def broker_call_def)
qed simp

lemma handle_reset_calls: "calls_only s (snd (handle_reset t t' s))"
  using dispatcher_callI [of "snd (handle_reset t t' s)" "d_reset t'" s, OF _ change_reset]
  by (auto simp: handle_reset_def calls_only_def broker_call_def intro!: exI [of _ "OpReset t"])

lemma handle_set_storage_path_calls:
  "handle_set_storage_path bytes s = (r, s') \<Longrightarrow> calls_only s s'"
  by (auto simp: handle_set_storage_path_def calls_only_def broker_call_def dispatcher_call_same
      split: sum.splits)

lemma handle_set_config_cases:
  assumes "handle_set_config t t' bytes s = (r, s')"
  obtains (malformed) e where "r = http_error e 400" "s' = s"
  | (updated) n k where "rs_status r = 200"
      "s' = s\<lparr>hs_broker := broker_reset_config t n k (hs_broker s),
              hs_dispatcher := map_option (d_reset_config t' n k) (hs_dispatcher s)\<rparr>"
  using assms by (auto simp: handle_set_config_def json_response_def split: sum.splits)

lemma handle_set_config_calls: "handle_set_config t t' bytes s = (r, s') \<Longrightarrow> calls_only s s'"
proof (erule handle_set_config_cases)
  fix n k
  assume "s' = s\<lparr>hs_broker := broker_reset_config t n k (hs_broker s),
              hs_dispatcher := map_option (d_reset_config t' n k) (hs_dispatcher s)\<rparr>"
  then show ?thesis
    using dispatcher_callI [of s' "d_reset_config t' n k" s, OF _ change_config]
    by (auto simp: calls_only_def broker_call_def intro!: exI [of _ "OpResetConfig t n k"])
qed simp

lemmas handler_calls = handle_push_calls handle_pop_calls handle_ack_calls handle_nack_calls
  handle_register_target_calls handle_set_storage_path_calls handle_set_config_calls

lemma serve_calls:
  assumes "serve api env meth path bytes s = (r, s')"
  shows "calls_only s s'"
proof (cases "route meth path")
  case Reset
  then have "s' = snd (handle_reset (pc_start (rq_clock env)) (pc_end (rq_clock env)) s)"
    using assms by (auto simp: serve_def Let_def apfst_def map_prod_def split: prod.splits)
  then show ?thesis by (simp add: handle_reset_calls)
qed (use assms in \<open>auto simp: serve_def Let_def run_op_Pair apfst_def map_prod_def split: prod.splits dest: handler_calls\<close>)

section \<open>Failed requests\<close>

lemma pop_failed: "pop now (b, w) = (Inl e, b', w') \<Longrightarrow> b' = b \<and> w' = w"
  by (cases rule: pop_cases) auto

lemma acknowledge_failed:
  assumes "acknowledge i (b, w) = (Some e, b', w')"
  shows "b' = b \<or> (\<exists>e d. remove_from_disk (storage_path b) i (wdisk w) = (Some e, d))"
  using assms by (cases rule: acknowledge_cases) auto

lemma negative_acknowledge_failed:
  assumes "negative_acknowledge i (b, w) = (Some e, b', w')"
  shows "b' = b"
  using assms by (cases rule: negative_acknowledge_cases) auto

text \<open>What the clients see of the broker: the queue and the leases.\<close>

definition same_queue :: "broker \<Rightarrow> broker \<Rightarrow> bool" where
  "same_queue b b' \<longleftrightarrow> messages b' = messages b \<and> pending_acks b' = pending_acks b"

lemma handle_push_failed:
  assumes "handle_push api ck bytes s = (r, s')" "400 \<le> rs_status r"
  shows "same_queue (hs_broker s) (hs_broker s') \<and> hs_dispatcher s' = hs_dispatcher s"
  using assms(1)
proof (cases rule: handle_push_cases)
  case (pushed l m e b w)
  have "e \<noteq> None" using pushed(4) assms(2) by (cases e) (simp_all add: json_response_def)
  then show ?thesis using pushed(3) push_frame [OF pushed(2)] by (simp add: same_queue_def)
qed (simp_all add: same_queue_def)

lemma handle_pop_failed:
  assumes "handle_pop now s = (r, s')" "400 \<le> rs_status r"
  shows "same_queue (hs_broker s) (hs_broker s') \<and> hs_dispatcher s' = hs_dispatcher s"
  using assms(1)
proof (cases rule: handle_pop_cases)
  case (1 x b w)
  then obtain e where "x = Inl e" using assms(2) by (cases x) (auto simp: json_response_def)
  then show ?thesis using 1 pop_failed [of now "hs_broker s" "hs_world s" e b w] by (simp add: same_queue_def)
qed

lemma handle_nack_failed:
  assumes "handle_nack bytes s = (r, s')" "400 \<le> rs_status r"
  shows "same_queue (hs_broker s) (hs_broker s') \<and> hs_dispatcher s' = hs_dispatcher s"
  using assms(1)
proof (cases rule: handle_nack_cases)
  case (called i e b w)
  then obtain x where "e = Some x" using assms(2) by (cases e) (auto simp: json_response_def)
  then show ?thesis using called negative_acknowledge_failed [of i "hs_broker s" "hs_world s" x b w]
    by (simp add: same_queue_def)
qed (simp add: same_queue_def)

lemma handle_ack_failed:
  assumes "handle_ack bytes s = (r, s')" "400 \<le> rs_status r"
  shows "hs_dispatcher s' = hs_dispatcher s \<and> (same_queue (hs_broker s) (hs_broker s') \<or>
    (\<exists>i e d. remove_from_disk (storage_path (hs_broker s)) i (wdisk (hs_world s)) = (Some e, d)))"
  using assms(1)
proof (cases rule: handle_ack_cases)
  case (called i e b w)
  then obtain x where "e = Some x" using assms(2) by (cases e) (auto simp: json_response_def)
  then show ?thesis using called acknowledge_failed [of i "hs_broker s" "hs_world s" x b w] by (auto simp: same_queue_def)
qed (simp add: same_queue_def)

lemma json_ok [simp]: "rs_status (json_response c j) = c" "rs_status handle_health = 200"
  by (simp_all add: json_response_def handle_health_def)

lemma apfst_Some: "apfst Some x = (Some r, s') \<longleftrightarrow> x = (r, s')"
  by (cases x) auto

lemma decode_printed_message:
  assumes "wf_message m" "int (length (print_json (encode_message m))) \<le> n"
  shows "decode_body (Some n) decode_message (print_json (encode_message m)) = Inr m"
proof -
  let ?j = "encode_message m"
  have "parse_prefix (print_json ?j) = Some (?j, [])"
    using parse_print(1) [of ?j "[]" "Suc (2 * length (print_json ?j))"] wf_encode_message [OF assms(1)]
    by (simp add: parse_prefix_def)
  then show ?thesis
    using assms(2) by (simp add: decode_body_def decode_stream_def decode_encode_message [OF assms(1)])
qed

section \<open>Properties\<close>


definition demo_request :: request_env where
  "demo_request = \<lparr>rq_clock = \<lparr>pc_limit = 1, pc_created = 5000000000, pc_start = 2, pc_end = 3\<rparr>,
     rq_order = [], rq_queue = (\<lambda>_. [])\<rparr>"


text \<open>
  C21: a message posted over HTTP is served unchanged.  When the JSON text of a message is posted
  to a server with an empty queue, fits the size limit and is answered with 201, the next pop
  answers with the same message, with the time of the push as its creation time.
\<close>

theorem http_push_pop:
  assumes "wf_message m" "int (length (print_json (encode_message m))) \<le> hs_max_payload s"
    "handle_push api ck (print_json (encode_message m)) s = (r, s1)" "rs_status r = 201"
    "messages (hs_broker s) = []"
  shows "fst (handle_pop t s1) =
    json_response 200 (encode_message (m\<lparr>created_at := unix (pc_created ck)\<rparr>))"
proof -
  note decoded = decode_printed_message [OF assms(1,2)]
  from assms(3) show ?thesis
  proof (cases rule: handle_push_cases)
    case (pushed l m' e b w)
    have "e = None" using pushed(4) assms(4) by (cases e) (simp_all add: http_error_def)
    then have "messages b = [m\<lparr>created_at := unix (pc_created ck)\<rparr>]"
      using push_frame [OF pushed(2)] assms(5) pushed(1) decoded by simp
    then show ?thesis using pushed(3) by (simp add: handle_pop_def on_broker_def pop_def Let_def)
  qed (use assms(4) decoded in \<open>simp_all add: http_error_def\<close>)
qed

lemma http_push_pop_witness:
  "let s1 = snd (handle_push demo_api (rq_clock demo_request)
       (print_json (encode_message (demo_message ''a''))) demo_server)
   in fst (handle_pop 9 s1) = json_response 200 (encode_message (demo_message ''a''\<lparr>created_at := 5\<rparr>))"
proof -
  let ?m = "demo_message ''a''"
  let ?p = "handle_push demo_api (rq_clock demo_request) (print_json (encode_message ?m)) demo_server"
  obtain r s1 where run: "?p = (r, s1)" by fastforce
  have fits: "int (length (print_json (encode_message ?m))) \<le> hs_max_payload demo_server" by code_simp
  have "fst (push (pc_start (rq_clock demo_request)) (pc_end (rq_clock demo_request))
      (?m\<lparr>created_at := unix (pc_created (rq_clock demo_request))\<rparr>)
      (hs_broker demo_server, hs_world demo_server)) = None" by code_simp
  then obtain b w where push: "push (pc_start (rq_clock demo_request)) (pc_end (rq_clock demo_request))
      (?m\<lparr>created_at := unix (pc_created (rq_clock demo_request))\<rparr>)
      (hs_broker demo_server, hs_world demo_server) = (None, b, w)" by (metis prod.collapse)
  have "hs_limiter demo_server = None" by code_simp
  then have created: "rs_status r = 201"
    using run decode_printed_message [OF _ fits] push
    by (auto simp: handle_push_def rate_check_def on_broker_def)
  have empty: "messages (hs_broker demo_server) = []" by code_simp
  have clock: "unix (pc_created (rq_clock demo_request)) = 5" by code_simp
  show ?thesis using http_push_pop [OF _ fits run created empty, of 9, unfolded clock] run by simp
qed

end
