(* ===== verification/Process_Facts.thy ===== *)
theory Process_Facts
  imports Program Http_Facts
begin

text \<open>
  The whole process: what holds in every state it can reach from its start, through requests,
  ticks, the dispatcher's goroutines and the stream, and what its stream tells the clients.
\<close>

section \<open>One step, seen from the broker\<close>

lemma on_http_simps [simp]:
  "pr_http (on_http f p) = f (pr_http p)" "pr_streamer (on_http f p) = pr_streamer p"
  "pr_dispatching (on_http f p) = pr_dispatching p" "pr_working (on_http f p) = pr_working p"
  "pr_retry_loop (on_http f p) = pr_retry_loop p"
  by (simp_all add: on_http_def)

lemma on_bw_cases:
  obtains b w where "f (hs_broker s, hs_world s) = (b, w)" "on_bw f s = s\<lparr>hs_broker := b, hs_world := w\<rparr>"
  by (cases "f (hs_broker s, hs_world s)") (auto simp: on_bw_def)

text \<open>A broker after a step is one after an operation, or has the queue from before.\<close>

definition broker_step :: "broker \<Rightarrow> broker \<Rightarrow> bool" where
  "broker_step b b' \<longleftrightarrow>
     (\<exists>op w r w'. run_op op (b, w) = (r, b', w')) \<or>
     messages b' = messages b \<and> (broker_ok b \<longrightarrow> broker_ok b') \<and>
       length (listeners b') = length (listeners b) \<and> length (msg_listeners b') = length (msg_listeners b)"

lemma broker_step_refl [simp]: "broker_step b b"
  by (simp add: broker_step_def)

lemma broker_step_ok:
  assumes "broker_step b b'" "broker_ok b"
  shows "broker_ok b' \<and> length (listeners b) \<le> length (listeners b') \<and>
    (i < length (msg_listeners b) \<longrightarrow> i < length (msg_listeners b'))"
  using assms by (auto simp: broker_step_def dest: run_op_ok run_op_listener_count run_op_listeners [where n = i])

lemma broker_step_op: "run_op op (b, w) = (r, b', w') \<Longrightarrow> broker_step b b'"
  by (auto simp: broker_step_def)

lemma broker_call_step: "broker_call s s' \<Longrightarrow> broker_step (hs_broker s) (hs_broker s')"
  by (auto simp: broker_call_def broker_step_def set_storage_path_def channels_ok_def
      broker_ok_def pending_ok_def)

lemma process_message_step:
  assumes "process_message env msg (d, b, w) = (d', b', w')"
  shows "broker_step b b'"
  using assms
proof (cases rule: process_message_cases)
  case (delivered r breaker w1)
  then have "run_op (OpAck (msg_id msg)) (b, w1) = (RErr (fst (acknowledge (msg_id msg) (b, w1))), b', w')"
    by (simp add: prod_eq_iff)
  then show ?thesis by (rule broker_step_op)
next
  case (failed r breaker)
  from failed(2) show ?thesis
  proof (cases rule: handle_failure_cases)
    case buried
    let ?x = "(b, inc_failed ''max_retries'' w)"
    have "run_op (OpDlq (msg_id msg)) ?x = (RErr (fst (move_to_dlq (msg_id msg) ?x)), b', w')"
      using buried(3) by (simp add: prod_eq_iff)
    then show ?thesis by (rule broker_step_op)
  next
    case (retried msg')
    let ?x = "(b, inc_failed ''retry'' w)"
    have "run_op (OpUpdate msg') ?x = (RErr (fst (update_message msg' ?x)), b', w')"
      using retried(4) by (simp add: prod_eq_iff)
    then show ?thesis by (rule broker_step_op)
  qed
qed simp

lemma dispatch_step_broker:
  assumes "dispatch_step save l s = Some s'" "own_step l"
  shows "broker_step (sys_broker s) (sys_broker s')"
proof (cases l)
  case Receive
  with assms(1) obtain m c where recv: "try_recv (sub_chan s) = Some (m, c)" "sub_id s < length (msg_listeners (sys_broker s))"
    and s': "sys_broker s' = (sys_broker s)\<lparr>msg_listeners := (msg_listeners (sys_broker s))[sub_id s := c]\<rparr>"
    by (auto simp: step_receive_def Let_def split: if_splits option.splits)
  have "sub_chan s \<in> set (msg_listeners (sys_broker s))" using recv(2) by (simp add: sub_chan_def)
  then have "broker_ok (sys_broker s) \<Longrightarrow> chan_ok c \<and> chan_cap c = 100"
    using chan_ok_recv [OF _ recv(1)] chan.recv_Some [OF recv(1)]
    by (auto simp: broker_ok_def channels_ok_def)
  then show ?thesis
    by (auto simp: broker_step_def s' broker_ok_def pending_ok_def channels_ok_def
        dest!: set_update_subset_insert [THEN subsetD])
next
  case (FinishTask i env)
  then show ?thesis using assms(1)
    by (auto simp: step_finish_def split: if_splits prod.splits dest: process_message_step)
qed (use assms in \<open>auto simp: step_timer_def step_retry_turn_def step_take_def
      split: if_splits option.splits prod.splits\<close>)

section \<open>One step, seen from the dispatcher\<close>

text \<open>
  What every step keeps of the dispatcher: well-formedness, its configuration, its listeners,
  and a set timer while messages wait and no retry loop runs.
\<close>

definition timer_ok :: "int64 option \<Rightarrow> 's dispatcher \<Rightarrow> bool" where
  "timer_ok l d \<longleftrightarrow> (retry_heap d \<noteq> [] \<and> l = None \<longrightarrow> retry_timer d \<noteq> None)"

definition dispatcher_step :: "'s dispatcher \<Rightarrow> 's dispatcher \<Rightarrow> bool" where
  "dispatcher_step d d' \<longleftrightarrow> (dispatcher_ok d \<longrightarrow> dispatcher_ok d') \<and>
     length (d_listeners d') = length (d_listeners d) \<and> d_cfg d' = d_cfg d"

lemma dispatcher_step_refl [simp]: "dispatcher_step d d"
  by (simp add: dispatcher_step_def)

lemma dispatcher_change_step:
  assumes "dispatcher_change f"
  shows "dispatcher_step d (f d) \<and> (timer_ok l d \<longrightarrow> timer_ok l (f d))"
  using assms
proof cases
  case (change_target tc)
  then show ?thesis
    using add_target_ok [of d tc]
    by (simp add: dispatcher_step_def timer_ok_def) (simp add: add_target_def Let_def d_notify_def)
qed (simp_all add: dispatcher_step_def timer_ok_def d_reset_def d_reset_config_def dispatcher_ok_def)

lemma process_message_listeners:
  assumes "process_message env msg (d, b, w) = (d', b', w')"
  shows "d_listeners d' = d_listeners d"
  using assms
proof (cases rule: process_message_cases)
  case (failed r breaker)
  from failed(2) show ?thesis by (cases rule: handle_failure_cases) simp_all
qed simp_all

lemma retry_turn_listeners: "retry_turn now t d = (goes_on, d') \<Longrightarrow> d_listeners d' = d_listeners d"
  by (auto simp: retry_turn_def Let_def split: prod.splits bool.splits if_splits option.splits)

lemma dispatch_step_listeners:
  assumes "dispatch_step save l s = Some s'" "own_step l"
  shows "d_listeners (sys_disp s') = d_listeners (sys_disp s) \<and> d_cfg (sys_disp s') = d_cfg (sys_disp s)"
proof (cases l)
  case (FinishTask i env)
  then obtain d b w where
    pm: "process_message env (working s ! i) (sys_disp s, sys_broker s, sys_world s) = (d, b, w)"
    and s': "sys_disp s' = release (working s ! i) d"
    using assms(1) by (auto simp: step_finish_def split: if_splits prod.splits)
  then show ?thesis using process_message_listeners [OF pm] process_message_cfg [OF pm]
    by (simp add: release_def)
next
  case (RetryTurn t)
  then show ?thesis using assms(1)
    by (auto simp: step_retry_turn_def dest: retry_turn_listeners retry_turn_cfg
        split: option.splits prod.splits)
qed (use assms in \<open>auto simp: step_timer_def step_receive_def step_take_def Let_def
      split: if_splits option.splits prod.splits\<close>)

section \<open>Well-formed processes\<close>

definition process_ok :: "('db, 'l) process \<Rightarrow> bool" where
  "process_ok p \<longleftrightarrow>
     (let s = pr_http p; st = pr_streamer p; b = hs_broker s in
      broker_ok b \<and> st_broker_sub st < length (listeners b) \<and>
      (\<forall>i. pr_dispatching p = Some i \<longrightarrow> i < length (msg_listeners b)) \<and>
      distinct (hs_conns s) \<and> 0 < hs_max_payload s \<and>
      (\<exists>d j. hs_dispatcher s = Some d \<and> dispatcher_ok d \<and> timer_ok (pr_retry_loop p) d \<and>
         st_dispatcher_sub st = Some j \<and> j < length (d_listeners d) \<and>
         int (length (pr_working p)) \<le> worker_count (d_cfg d)))"

text \<open>A change of the server that makes calls only.\<close>

lemma process_ok_server:
  assumes "process_ok p" "broker_step (hs_broker (pr_http p)) (hs_broker s')"
    "hs_dispatcher s' = map_option f (hs_dispatcher (pr_http p))"
    "\<And>d. hs_dispatcher (pr_http p) = Some d \<Longrightarrow>
       dispatcher_step d (f d) \<and> (timer_ok (pr_retry_loop p) d \<longrightarrow> timer_ok (pr_retry_loop p) (f d))"
    "distinct (hs_conns s')" "hs_max_payload s' = hs_max_payload (pr_http p)"
  shows "process_ok (p\<lparr>pr_http := s'\<rparr>)"
proof -
  let ?b = "hs_broker (pr_http p)"
  have ok: "broker_ok ?b" using assms(1) by (simp add: process_ok_def Let_def)
  show ?thesis
    using assms(1,3-6) broker_step_ok [OF assms(2) ok]
    by (fastforce simp: process_ok_def Let_def dispatcher_step_def)
qed

lemma process_ok_calls:
  assumes "process_ok p" "calls_only (pr_http p) s'"
  shows "process_ok (p\<lparr>pr_http := s'\<rparr>)"
proof -
  obtain f where f: "hs_dispatcher s' = map_option f (hs_dispatcher (pr_http p))" "dispatcher_change f"
    using assms(2) by (auto simp: calls_only_def dispatcher_call_def)
  have "distinct (hs_conns s')" "hs_max_payload s' = hs_max_payload (pr_http p)"
    "broker_step (hs_broker (pr_http p)) (hs_broker s')"
    using assms broker_call_step by (auto simp: calls_only_def process_ok_def Let_def)
  then show ?thesis using process_ok_server [OF assms(1) _ f(1) dispatcher_change_step [OF f(2)]] by blast
qed

lemma process_ok_bw:
  assumes "process_ok p" "\<And>b w. \<exists>op r. run_op op (b, w) = (r, f (b, w))"
  shows "process_ok (on_http (on_bw f) p)"
proof (rule on_bw_cases [of f "pr_http p"])
  fix b w assume f: "f (hs_broker (pr_http p), hs_world (pr_http p)) = (b, w)"
    and s: "on_bw f (pr_http p) = (pr_http p)\<lparr>hs_broker := b, hs_world := w\<rparr>"
  obtain op r where "run_op op (hs_broker (pr_http p), hs_world (pr_http p)) = (r, b, w)"
    using assms(2) [of "hs_broker (pr_http p)" "hs_world (pr_http p)"] f by auto
  from calls_only_op(2) [OF this] process_ok_calls [OF assms(1)] show ?thesis
    by (simp add: on_http_def s)
qed

lemma grpc_ops:
  "\<exists>op r. run_op op (b, w) = (r, snd (grpc_push now t0 t1 req (b, w)))"
  "\<exists>op r. run_op op (b, w) = (r, snd (grpc_pop now (b, w)))"
  "\<exists>op r. run_op op (b, w) = (r, snd (grpc_ack i (b, w)))"
  "\<exists>op r. run_op op (b, w) = (r, snd (grpc_nack i (b, w)))"
proof -
  show "\<exists>op r. run_op op (b, w) = (r, snd (grpc_push now t0 t1 req (b, w)))"
    by (rule exI [of _ "OpPush t0 t1 (grpc_message now req)"])
      (auto simp: grpc_push_def apfst_def map_prod_def split: prod.split option.split)
  show "\<exists>op r. run_op op (b, w) = (r, snd (grpc_pop now (b, w)))"
    by (rule exI [of _ "OpPop now"])
      (auto simp: grpc_pop_def apfst_def map_prod_def split: prod.split sum.split)
  show "\<exists>op r. run_op op (b, w) = (r, snd (grpc_ack i (b, w)))"
    by (rule exI [of _ "OpAck i"])
      (auto simp: grpc_ack_def apfst_def map_prod_def split: prod.split option.split)
  show "\<exists>op r. run_op op (b, w) = (r, snd (grpc_nack i (b, w)))"
    by (rule exI [of _ "OpNack i"])
      (auto simp: grpc_nack_def apfst_def map_prod_def split: prod.split option.split)
qed

lemma tick_op: "\<exists>op r. run_op op (b, w) = (r, timeout_tick now order (b, w))"
  by (rule exI [of _ "OpTick now order"]) simp

lemma process_ok_dispatch:
  assumes "process_ok p" "process_system p = Some s" "dispatch_step save l s = Some s'" "own_step l"
  shows "process_ok (put_system s' p)"
proof -
  have parts: "hs_dispatcher (pr_http p) = Some (sys_disp s)" "pr_dispatching p = Some (sub_id s)"
    "sys_broker s = hs_broker (pr_http p)" "working s = pr_working p" "retry_loop s = pr_retry_loop p"
    using assms(2) by (auto simp: process_system_def split: option.splits)
  have "system_ok s" "armed s"
    using assms(1) parts
    by (auto simp: process_ok_def Let_def system_ok_def armed_def timer_ok_def dispatcher_ok_def)
  then have "system_ok s'" "armed s'"
    using dispatch_step_ok [OF assms(3)] armed_step [OF assms(3)] by auto
  then show ?thesis
    using assms(1) parts broker_step_ok [OF dispatch_step_broker [OF assms(3,4)]]
      dispatch_step_listeners [OF assms(3,4)]
    by (fastforce simp: process_ok_def put_system_def Let_def system_ok_def armed_def timer_ok_def)
qed

lemma take_broker_update_cases:
  assumes "take_broker_update now (st, s) = Some (st', s')"
  obtains c where "st' = stream_updated now st" "st_broker_sub st < length (listeners (hs_broker s))"
    "try_recv (listeners (hs_broker s) ! st_broker_sub st) = Some ((), c)"
    "s' = s\<lparr>hs_broker := (hs_broker s)\<lparr>listeners := (listeners (hs_broker s))[st_broker_sub st := c]\<rparr>\<rparr>"
  using assms by (auto simp: take_broker_update_def Let_def split: if_splits option.splits)

lemma take_dispatcher_update_cases:
  assumes "take_dispatcher_update now (st, s) = Some (st', s')"
  obtains d i c where "st' = stream_updated now st" "hs_dispatcher s = Some d" "st_dispatcher_sub st = Some i"
    "i < length (d_listeners d)" "try_recv (d_listeners d ! i) = Some ((), c)"
    "s' = s\<lparr>hs_dispatcher := Some (d\<lparr>d_listeners := (d_listeners d)[i := c]\<rparr>)\<rparr>"
  using assms by (auto simp: take_dispatcher_update_def Let_def split: if_splits option.splits)

lemma set_listener:
  assumes "\<forall>c \<in> set xs. chan_ok c \<and> chan_cap c = n" "i < length xs" "try_recv (xs ! i) = Some (u, c)"
  shows "\<forall>c \<in> set (xs[i := c]). chan_ok c \<and> chan_cap c = n"
  using assms chan_ok_recv [OF _ assms(3)] chan.recv_Some [OF assms(3)]
  by (auto dest!: set_update_subset_insert [THEN subsetD])

lemma process_ok_streamer [simp]:
  "process_ok (p\<lparr>pr_streamer := stream_updated now (pr_streamer p), pr_http := s\<rparr>) = process_ok (p\<lparr>pr_http := s\<rparr>)"
  by (simp add: process_ok_def Let_def stream_updated_def)

lemma process_ok_distinct: "process_ok p \<Longrightarrow> distinct (hs_conns (pr_http p))"
  by (simp add: process_ok_def Let_def)

lemma process_ok_broker_update:
  assumes "process_ok p" "stream_step (take_broker_update now) p = Some p'"
  shows "process_ok p'"
proof -
  obtain st s where tk: "take_broker_update now (pr_streamer p, pr_http p) = Some (st, s)"
    and p': "p' = p\<lparr>pr_streamer := st, pr_http := s\<rparr>"
    using assms(2) by (auto simp: stream_step_def)
  from tk show ?thesis
  proof (cases rule: take_broker_update_cases)
    case (1 c)
    let ?b = "hs_broker (pr_http p)"
    have "broker_ok ?b \<Longrightarrow> broker_ok (?b\<lparr>listeners := (listeners ?b)[st_broker_sub (pr_streamer p) := c]\<rparr>)"
      using set_listener [OF _ 1(2,3), of 1] by (simp add: broker_ok_def channels_ok_def pending_ok_def)
    then have "broker_step ?b (hs_broker s)" by (simp add: broker_step_def 1(4))
    moreover have "hs_dispatcher s = map_option (\<lambda>d. d) (hs_dispatcher (pr_http p))"
      by (simp add: 1(4) map_option.identity)
    ultimately have "process_ok (p\<lparr>pr_http := s\<rparr>)"
      by (rule process_ok_server [OF assms(1)]) (use process_ok_distinct [OF assms(1)] in \<open>simp_all add: 1(4)\<close>)
    then show ?thesis by (simp add: p' 1(1))
  qed
qed

lemma process_ok_dispatcher_update:
  assumes "process_ok p" "stream_step (take_dispatcher_update now) p = Some p'"
  shows "process_ok p'"
proof -
  obtain st s where tk: "take_dispatcher_update now (pr_streamer p, pr_http p) = Some (st, s)"
    and p': "p' = p\<lparr>pr_streamer := st, pr_http := s\<rparr>"
    using assms(2) by (auto simp: stream_step_def)
  from tk show ?thesis
  proof (cases rule: take_dispatcher_update_cases)
    case (1 d i c)
    let ?d = "d\<lparr>d_listeners := (d_listeners d)[i := c]\<rparr>"
    have ok: "dispatcher_ok ?d" if "dispatcher_ok d"
    proof -
      have "\<forall>c \<in> set (d_listeners d). chan_ok c \<and> chan_cap c = 1"
        using that by (simp add: dispatcher_ok_def)
      from set_listener [OF this 1(4,5)] that show ?thesis by (simp add: dispatcher_ok_def)
    qed
    have step: "dispatcher_step d ?d \<and> (timer_ok x d \<longrightarrow> timer_ok x ?d)" for x
      by (simp add: dispatcher_step_def timer_ok_def ok)
    have "process_ok (p\<lparr>pr_http := s\<rparr>)"
    proof (rule process_ok_server [OF assms(1)])
      show "hs_dispatcher s = map_option (\<lambda>_. ?d) (hs_dispatcher (pr_http p))" by (simp add: 1(2,6))
      show "distinct (hs_conns s)" using process_ok_distinct [OF assms(1)] by (simp add: 1(6))
      show "dispatcher_step d' ?d \<and> (timer_ok (pr_retry_loop p) d' \<longrightarrow> timer_ok (pr_retry_loop p) ?d)"
        if "hs_dispatcher (pr_http p) = Some d'" for d'
        using step 1(2) that by simp
    qed (simp_all add: 1(6))
    then show ?thesis by (simp add: p' 1(1))
  qed
qed

lemma process_ok_timer:
  "process_ok p \<Longrightarrow> timer_step now order p = Some (r, p') \<Longrightarrow> process_ok p'"
  by (auto simp: timer_step_def take_timer_def process_ok_def Let_def split: option.splits if_splits)

lemma process_ok_conns:
  assumes "process_ok p" "distinct cs"
  shows "process_ok (p\<lparr>pr_http := (pr_http p)\<lparr>hs_conns := cs\<rparr>\<rparr>)"
  using process_ok_server [OF assms(1), of "(pr_http p)\<lparr>hs_conns := cs\<rparr>" "\<lambda>d. d"] assms(2)
  by (simp add: map_option.identity)

lemma process_step_ok:
  assumes "process_step en l p = Some p'" "process_ok p"
  shows "process_ok p'"
proof (cases l)
  case (HttpRequest env meth path body)
  obtain r s' where run: "serve (en_limiter en) env meth path body (pr_http p) = (r, s')" by fastforce
  then show ?thesis
    using assms(1) HttpRequest process_ok_calls [OF assms(2) serve_calls [OF run]]
    by (simp add: on_http_def)
next
  case (Dispatch dl)
  then show ?thesis
    using assms by (auto simp: bind_eq_Some_conv split: if_splits intro: process_ok_dispatch)
next
  case (SaveTarget i)
  let ?f = "run_save_job (save_target (en_driver en)) i"
  have "dispatcher_step d (?f d) \<and> (timer_ok x d \<longrightarrow> timer_ok x (?f d))" for d x
    using run_save_job_ok [of d]
    by (simp add: dispatcher_step_def timer_ok_def) (simp add: run_save_job_def split: option.split)
  then show ?thesis
    using assms SaveTarget process_ok_server [OF assms(2), of "(pr_http p)\<lparr>hs_dispatcher :=
        map_option ?f (hs_dispatcher (pr_http p))\<rparr>" ?f]
    by (simp add: on_http_def process_ok_def Let_def)
next
  case (Connect c)
  then show ?thesis
    using assms process_ok_conns [OF assms(2)] process_ok_distinct [OF assms(2)]
    by (auto simp: on_http_def ws_connect_def)
next
  case (Disconnect c)
  then show ?thesis
    using assms process_ok_conns [OF assms(2)] distinct_removeAll [OF process_ok_distinct [OF assms(2)]]
    by (auto simp: on_http_def ws_remove_def)
qed (use assms in \<open>auto intro!: process_ok_bw grpc_ops tick_op
      intro: process_ok_broker_update process_ok_dispatcher_update process_ok_timer\<close>)

section \<open>The start\<close>

lemma start_process_cases:
  assumes "start_process en noDispatcher = Inr p"
  obtains cfg db bw disp sub st s w where
    "load_config (en_read en) (en_yaml en) ''config/config.yaml'' = (Some cfg, None)"
    "new_target_storage (en_driver en) (database_path en) = Inr db"
    "wmetrics w = wmetrics (en_world en)"
    "(sub, disp, bw) = (if noDispatcher then
         (None, new_dispatcher (en_clock en) cfg (network_breaker en cfg) (Some db), start_broker en cfg w)
       else apfst Some (start_dispatcher (get_all_targets (en_driver en)) (en_clock en) (en_scan en)
         (new_dispatcher (en_clock en) cfg (network_breaker en cfg) (Some db)) (start_broker en cfg w)))"
    "start_streaming (new_http_server (en_limiter en) bw (Some disp) (Some cfg)) = (st, s)"
    "p = \<lparr>pr_http = s, pr_streamer = st, pr_dispatching = sub, pr_working = [], pr_retry_loop = None\<rparr>"
proof -
  obtain c err where load: "load_config (en_read en) (en_yaml en) ''config/config.yaml'' = (c, err)"
    by fastforce
  show ?thesis
  proof (cases c)
    case None
    with assms load show ?thesis by (simp add: start_process_def)
  next
    case (Some cfg)
    show ?thesis
    proof (cases err)
      case e: None
      let ?w = "(en_world en)\<lparr>wdisk := os_mkdir_all ''data/db''
        (os_mkdir_all ''data/cb_log'' (wdisk (en_world en)))\<rparr>"
      note run = assms [unfolded start_process_def load Some e prod.case option.case Let_def, simplified]
      obtain db where db: "new_target_storage (en_driver en) (database_path en) = Inr db"
        using run by (auto split: sum.splits)
      obtain sub disp bw where d: "(sub, disp, bw) = (if noDispatcher then
         (None, new_dispatcher (en_clock en) cfg (network_breaker en cfg) (Some db), start_broker en cfg ?w)
       else apfst Some (start_dispatcher (get_all_targets (en_driver en)) (en_clock en) (en_scan en)
         (new_dispatcher (en_clock en) cfg (network_breaker en cfg) (Some db)) (start_broker en cfg ?w)))"
        by (metis prod_cases3)
      obtain st s where st: "start_streaming (new_http_server (en_limiter en) bw (Some disp) (Some cfg)) = (st, s)"
        by fastforce
      show ?thesis
        by (rule that [OF _ db _ d st])
          (use run db d st load Some e in \<open>auto split: if_splits option.splits prod.splits\<close>)
    next
      case (Some e)
      with assms load \<open>c = Some cfg\<close> show ?thesis by (simp add: start_process_def)
    qed
  qed
qed

lemma start_broker_ok: "broker_ok (fst (start_broker en cfg w))"
proof -
  obtain b w' where "new_broker (cfg_storage_path cfg) (cfg_dead_letter_path cfg)
      (Some (storage_breaker en cfg)) w = (b, w')" by fastforce
  then show ?thesis
    using broker_ok_new [of "cfg_storage_path cfg" "cfg_dead_letter_path cfg" "Some (storage_breaker en cfg)" w]
    by (simp add: start_broker_def)
qed

lemma start_dispatcher_heap:
  "start_dispatcher load now q d bw = (sub, d', bw') \<Longrightarrow> retry_heap d' = retry_heap d"
  by (auto simp: start_dispatcher_def Let_def split: prod.splits)

lemma start_streaming_cases:
  assumes "start_streaming s = (st, s')" "hs_dispatcher s = Some d"
  obtains "st = \<lparr>st_broker_sub = length (listeners (hs_broker s)),
      st_dispatcher_sub = Some (length (d_listeners d)), st_timer = None, st_needs = False\<rparr>"
    "s' = s\<lparr>hs_broker := snd (subscribe (hs_broker s)), hs_dispatcher := Some (snd (d_subscribe d))\<rparr>"
  using assms by (auto simp: start_streaming_def subscribe_def d_subscribe_def)

lemma new_http_server_simps [simp]:
  "hs_broker (new_http_server api bw d cfg) = fst bw" "hs_world (new_http_server api bw d cfg) = snd bw"
  "hs_dispatcher (new_http_server api bw d cfg) = d" "hs_conns (new_http_server api bw d cfg) = []"
  "0 < hs_max_payload (new_http_server api bw d cfg)"
  by (auto simp: new_http_server_def Let_def split: option.split)

lemma start_process_ok:
  assumes "start_process en noDispatcher = Inr p"
  shows "process_ok p"
  using assms
proof (cases rule: start_process_cases)
  case (1 cfg db bw disp sub st s w)
  let ?new = "new_dispatcher (en_clock en) cfg (network_breaker en cfg) (Some db)"
  obtain b w1 where sb: "start_broker en cfg w = (b, w1)" by fastforce
  then have b: "broker_ok b" using start_broker_ok [of en cfg w] by simp
  have parts: "dispatcher_ok disp \<and> broker_ok (fst bw) \<and> retry_heap disp = [] \<and>
      (\<forall>i. sub = Some i \<longrightarrow> i < length (msg_listeners (fst bw)))"
  proof (cases noDispatcher)
    case True
    with 1(4) sb b show ?thesis by (simp add: new_dispatcher_ok) (simp add: new_dispatcher_def)
  next
    case False
    obtain i d2 b2 w2 where start: "start_dispatcher (get_all_targets (en_driver en)) (en_clock en)
        (en_scan en) ?new (b, w1) = (i, d2, b2, w2)" by (metis prod_cases4)
    from start_dispatcher_ok [OF this new_dispatcher_ok b] start_dispatcher_heap [OF this] 1(4) False sb
    show ?thesis by (simp add: start) (simp add: new_dispatcher_def)
  qed
  from 1(5) show ?thesis
  proof (rule start_streaming_cases)
    show "hs_dispatcher (new_http_server (en_limiter en) bw (Some disp) (Some cfg)) = Some disp" by simp
  next
    let ?s = "new_http_server (en_limiter en) bw (Some disp) (Some cfg)"
    assume st: "st = \<lparr>st_broker_sub = length (listeners (hs_broker ?s)),
        st_dispatcher_sub = Some (length (d_listeners disp)), st_timer = None, st_needs = False\<rparr>"
      and s: "s = ?s\<lparr>hs_broker := snd (subscribe (hs_broker ?s)), hs_dispatcher := Some (snd (d_subscribe disp))\<rparr>"
    have "broker_ok (snd (subscribe (fst bw)))" "dispatcher_ok (snd (d_subscribe disp))"
      using parts d_subscribe_ok [of disp] by simp_all
    then show ?thesis
      using parts worker_count_pos [of "d_cfg disp"]
      by (simp add: process_ok_def Let_def 1(6) st s subscribe_def d_subscribe_def timer_ok_def)
  qed
qed

lemma reachable_ok: "reachable en noDispatcher p \<Longrightarrow> process_ok p"
  by (induction rule: reachable.induct) (auto dest: start_process_ok process_step_ok)

section \<open>The stream\<close>

text \<open>A step that changes which messages are queued leaves a signal for the streaming loop.\<close>

lemma notified_signal:
  assumes "broker_ok b" "i < length (listeners b)" "listeners b' = listeners (notify b1)" "listeners b1 = listeners b"
  shows "\<exists>u c. try_recv (listeners b' ! i) = Some (u, c)"
proof -
  have "listeners b' = listeners (notify b)" using assms(3,4) by (simp add: notify_def)
  then have "chan_buf (listeners b' ! i) \<noteq> []"
    using notify_signals [of b i] assms(1,2) by (simp add: broker_ok_def)
  then have "try_recv (listeners b' ! i) \<noteq> None" using chan.recv_None by metis
  then show ?thesis by auto
qed

lemma broker_step_signals:
  assumes "broker_step b b'" "broker_ok b" "i < length (listeners b)"
    "map msg_id (messages b') \<noteq> map msg_id (messages b)"
  shows "\<exists>u c. try_recv (listeners b' ! i) = Some (u, c)"
proof -
  from assms(1,4) obtain op w r w' where op: "run_op op (b, w) = (r, b', w')"
    by (auto simp: broker_step_def)
  from run_op_notifies [OF op assms(4)] obtain b1
    where "listeners b' = listeners (notify b1)" "listeners b1 = listeners b" by blast
  then show ?thesis by (rule notified_signal [OF assms(2,3)])
qed

lemma on_bw_step:
  assumes "\<And>b w. \<exists>op r. run_op op (b, w) = (r, f (b, w))"
  shows "broker_step (hs_broker s) (hs_broker (on_bw f s))"
proof (rule on_bw_cases [of f s])
  fix b w assume f: "f (hs_broker s, hs_world s) = (b, w)"
    and s: "on_bw f s = s\<lparr>hs_broker := b, hs_world := w\<rparr>"
  obtain op r where "run_op op (hs_broker s, hs_world s) = (r, b, w)"
    using assms [of "hs_broker s" "hs_world s"] f by auto
  then show ?thesis by (simp add: s broker_step_op)
qed

lemma process_step_broker:
  assumes "process_step en l p = Some p'" "process_ok p"
  shows "broker_step (hs_broker (pr_http p)) (hs_broker (pr_http p')) \<and>
      st_broker_sub (pr_streamer p') = st_broker_sub (pr_streamer p)"
proof (cases l)
  case (HttpRequest env meth path body)
  obtain r s' where run: "serve (en_limiter en) env meth path body (pr_http p) = (r, s')" by fastforce
  then have "broker_call (pr_http p) s'" using serve_calls [OF run] by (simp add: calls_only_def)
  then show ?thesis using assms(1) HttpRequest run by (auto intro: broker_call_step)
next
  case (Dispatch dl)
  then obtain s s' where s: "process_system p = Some s" "own_step dl"
    "dispatch_step (save_target (en_driver en)) dl s = Some s'" "p' = put_system s' p"
    using assms(1) by (auto simp: bind_eq_Some_conv split: if_splits)
  then have "sys_broker s = hs_broker (pr_http p)"
    by (auto simp: process_system_def split: option.splits)
  then show ?thesis using dispatch_step_broker [OF s(3,2)] s(4) by (simp add: put_system_def)
next
  case (BrokerUpdate now)
  then obtain st s where tk: "take_broker_update now (pr_streamer p, pr_http p) = Some (st, s)"
    and p': "p' = p\<lparr>pr_streamer := st, pr_http := s\<rparr>"
    using assms(1) by (auto simp: stream_step_def)
  have "broker_ok (hs_broker (pr_http p'))"
    using process_step_ok [OF assms] by (simp add: process_ok_def Let_def)
  with tk show ?thesis
    by (cases rule: take_broker_update_cases) (simp add: broker_step_def p' stream_updated_def)
next
  case (DispatcherUpdate now)
  then obtain st s where tk: "take_dispatcher_update now (pr_streamer p, pr_http p) = Some (st, s)"
    and p': "p' = p\<lparr>pr_streamer := st, pr_http := s\<rparr>"
    using assms(1) by (auto simp: stream_step_def)
  from tk show ?thesis
    by (cases rule: take_dispatcher_update_cases) (simp add: p' stream_updated_def)
qed (use assms in \<open>auto simp: on_http_def ws_connect_def ws_remove_def timer_step_def take_timer_def
      split: option.splits if_splits intro!: on_bw_step grpc_ops tick_op\<close>)

text \<open>
  The members of the statistics: the sizes and the states of the two breakers.
\<close>

lemma stats_queue_size:
  "map_of (stats_members s) ''queue_size'' = Some (json_int (int (length (messages (hs_broker s)))))"
proof -
  obtain st n k where "network_stats s = (st, n, k)" by (metis prod_cases3)
  then show ?thesis by (simp add: stats_members_def get_stats_def)
qed

section \<open>An example process\<close>

definition demo_environment :: "((string \<times> string \<times> string option) list, unit) environment" where
  "demo_environment =
     \<lparr>en_read = (\<lambda>_. Inr ''config''), en_yaml = (\<lambda>_. (demo_config, None)), en_driver = memory_driver,
      en_limiter = demo_api, en_listen = (\<lambda>_. None), en_cwd = ''/srv'', en_log_writable = True,
      en_clock = 1000000000, en_scan = (\<lambda>_. []), en_world = demo_world\<rparr>"

definition demo_process :: "((string \<times> string \<times> string option) list, unit) process" where
  "demo_process = projr (start_process demo_environment False)"

lemma demo_reachable: "reachable demo_environment False demo_process"
proof (rule started)
  have "\<not> isl (start_process demo_environment False)" by code_simp
  then show "start_process demo_environment False = Inr demo_process"
    by (simp add: demo_process_def)
qed

section \<open>Properties\<close>

text \<open>
  C5: every state of the process is well-formed.  From the start on, through any requests,
  ticks, deliveries, background saves and stream steps: the pending map has one entry for each
  identifier and under the identifier of its message, every channel holds at most its
  capacity, targets are under their own names, the retry heap is a heap and its timer is set
  while messages wait and no retry loop runs, at most the configured number of workers is
  busy, no connection is registered twice, and the subscriptions of both loops exist.
\<close>

theorem process_well_formed:
  assumes "reachable en noDispatcher p"
  shows "process_ok p"
  using assms by (rule reachable_ok)

lemma process_well_formed_witness: "process_ok demo_process"
  by (rule process_well_formed [OF demo_reachable])


definition watched_process :: "((string \<times> string \<times> string option) list, unit) process" where
  "watched_process = the (process_step demo_environment (Connect 7) demo_process)"

definition pushed_process :: "((string \<times> string \<times> string option) list, unit) process" where
  "pushed_process =
     the (process_step demo_environment (GrpcPush 2000000000 2000000000 2000000001 sample_push) watched_process)"


end
