(* ===== verification/Breaker_Calls.thy ===== *)
theory Breaker_Calls
  imports Circuit_Breaker
begin

text \<open>
  \<open>CircuitBreaker.Execute\<close> under load: sequences of calls, and calls that overlap.  The
  action of a call runs outside the mutex, so a call is two steps (admission and completion)
  and any number of other steps may come between them.
\<close>

section \<open>Sequences of calls\<close>

text \<open>
  A call is given by its two clock readings and the error of its action; the action counts
  how often it has run.
\<close>

type_synonym call = "time \<times> time \<times> go_error option"

fun run_calls :: "call list \<Rightarrow> circuit_breaker \<Rightarrow> nat \<Rightarrow> circuit_breaker \<times> nat" where
  "run_calls [] cb n = (cb, n)"
| "run_calls ((t0, t1, err) # cs) cb n =
     (case cb_execute t0 t1 (\<lambda>k. (err, Suc k)) cb n of
        (_, cb', n') \<Rightarrow> run_calls cs cb' n')"

text \<open>The number of failures that trip a closed breaker; a threshold below one acts as one.\<close>

definition trip_count :: "circuit_breaker \<Rightarrow> nat" where
  "trip_count cb = nat (max 1 (cb_threshold cb))"

lemma int_trip_count: "int (trip_count cb) = max 1 (cb_threshold cb)"
  by (simp add: trip_count_def)

definition failing_call :: "time \<Rightarrow> int \<Rightarrow> call \<Rightarrow> bool" where
  "failing_call start d c \<longleftrightarrow>
     (case c of (t0, t1, err) \<Rightarrow> err \<noteq> None \<and> start \<le> t0 \<and> t0 < start + d \<and> start \<le> t1)"

lemma timeout_not_elapsed:
  "start \<le> cb_last_failure cb \<Longrightarrow> t < start + sint (cb_timeout cb) \<Longrightarrow>
   0 < sint (cb_timeout cb) \<Longrightarrow> \<not> timeout_elapsed t cb"
  by (auto simp: timeout_elapsed_def time_sub_ge_iff min_int64_def)

lemma run_calls_open:
  assumes "cb_st cb = StateOpen" "start \<le> cb_last_failure cb" "0 < sint (cb_timeout cb)"
    and "\<forall>c \<in> set cs. failing_call start (sint (cb_timeout cb)) c"
  shows "run_calls cs cb n = (cb, n)"
  using assms
proof (induction cs)
  case Nil
  then show ?case by simp
next
  case (Cons c cs)
  obtain t0 t1 err where c: "c = (t0, t1, err)" by (cases c) auto
  have "\<not> timeout_elapsed t0 cb"
    using Cons.prems c by (intro timeout_not_elapsed) (auto simp: failing_call_def)
  with Cons c show ?case by (simp add: cb_execute_def)
qed

lemma cb_execute_closed_failure:
  assumes "cb_st cb = StateClosed"
  shows "cb_execute t0 t1 (\<lambda>k. (Some e, Suc k)) cb n = (Some e, cb_complete t1 (Some e) cb, Suc n)"
  using assms by (simp add: cb_execute_def)

lemma run_calls_closed:
  assumes "cb_st cb = StateClosed" "0 \<le> cb_failures cb" "cb_failures cb < int (trip_count cb)"
    and "0 < sint (cb_timeout cb)"
    and "\<forall>c \<in> set cs. failing_call start (sint (cb_timeout cb)) c"
  shows "snd (run_calls cs cb n) =
           n + min (length cs) (trip_count cb - nat (cb_failures cb)) \<and>
         cb_st (fst (run_calls cs cb n)) =
           (if trip_count cb \<le> nat (cb_failures cb) + length cs then StateOpen else StateClosed)"
  using assms
proof (induction cs arbitrary: cb n)
  case Nil
  then show ?case by simp
next
  case (Cons c cs)
  obtain t0 t1 e where c: "c = (t0, t1, Some e)" "start \<le> t1"
    using Cons.prems(5) by (auto simp: failing_call_def)
  let ?cb = "cb_complete t1 (Some e) cb"
  have run: "run_calls (c # cs) cb n = run_calls cs ?cb (Suc n)"
    using Cons.prems(1) c by (simp add: cb_execute_closed_failure)
  have tc: "trip_count ?cb = trip_count cb" by (simp add: trip_count_def)
  show ?case
  proof (cases "int (trip_count cb) = cb_failures cb + 1")
    case True
    then have "cb_st ?cb = StateOpen"
      by (auto simp: cb_complete_failure int_trip_count)
    then have "run_calls cs ?cb (Suc n) = (?cb, Suc n)"
      using Cons.prems c by (intro run_calls_open [of _ start]) (auto simp: cb_complete_failure)
    with True \<open>cb_st ?cb = StateOpen\<close> Cons.prems(2) show ?thesis unfolding run by auto
  next
    case False
    then have lt: "cb_failures cb + 1 < int (trip_count cb)" using Cons.prems(3) by simp
    then have "cb_st ?cb = StateClosed" "cb_failures ?cb = cb_failures cb + 1"
      using Cons.prems(1,2) by (auto simp: cb_complete_failure int_trip_count less_max_iff_disj)
    with Cons.IH [of ?cb "Suc n"] Cons.prems lt tc show ?thesis unfolding run by auto
  qed
qed

section \<open>Overlapping calls\<close>

text \<open>
  The breaker together with the calls whose action is running.  Each running call has a
  number and a flag that says whether it was let through as a trial.
\<close>

record cb_system =
  sys_cb :: circuit_breaker
  running :: "(nat \<times> bool) list"

datatype cb_label =
    Call nat time
  | Return nat time "go_error option"
  | Reset time
  | Reconfig time int int64

fun is_reset :: "cb_label \<Rightarrow> bool" where
  "is_reset (Reset t) = True"
| "is_reset (Reconfig t n d) = True"
| "is_reset _ = False"

inductive cb_step :: "cb_system \<Rightarrow> cb_label \<Rightarrow> cb_system \<Rightarrow> bool" where
  rejected: "cb_admit now (sys_cb s) = (cb, Some e) \<Longrightarrow>
     cb_step s (Call i now) (s\<lparr>sys_cb := cb\<rparr>)"
| started: "cb_admit now (sys_cb s) = (cb, None) \<Longrightarrow> i \<notin> fst ` set (running s) \<Longrightarrow>
     cb_step s (Call i now)
       (s\<lparr>sys_cb := cb, running := (i, cb_st cb = StateHalfOpen) # running s\<rparr>)"
| finished: "i \<in> fst ` set (running s) \<Longrightarrow>
     cb_step s (Return i now err)
       (s\<lparr>sys_cb := cb_complete now err (sys_cb s), running := AList.delete i (running s)\<rparr>)"
| reset: "cb_step s (Reset now) (s\<lparr>sys_cb := cb_reset now (sys_cb s)\<rparr>)"
| reconfig: "cb_step s (Reconfig now n d) (s\<lparr>sys_cb := cb_reset_config now n d (sys_cb s)\<rparr>)"

code_pred (modes: i \<Rightarrow> i \<Rightarrow> o \<Rightarrow> bool) cb_step .

inductive_simps cb_step_Call: "cb_step s (Call i now) s'"
inductive_simps cb_step_Return: "cb_step s (Return i now err) s'"
inductive_cases cb_stepE: "cb_step s l s'"

definition cb_system_init :: "circuit_breaker \<Rightarrow> cb_system" where
  "cb_system_init cb = \<lparr>sys_cb = cb, running = []\<rparr>"

text \<open>Runs, with the labels of their steps in order.\<close>

inductive cb_run :: "cb_system \<Rightarrow> cb_label list \<Rightarrow> cb_system \<Rightarrow> bool" where
  none: "cb_run s [] s"
| step: "cb_run s ls s' \<Longrightarrow> cb_step s' l s'' \<Longrightarrow> cb_run s (ls @ [l]) s''"

definition fresh_breaker :: "circuit_breaker \<Rightarrow> bool" where
  "fresh_breaker cb \<longleftrightarrow> cb_st cb = StateClosed \<and> \<not> cb_in_trial cb \<and> cb_failures cb = 0 \<and> cb_log cb = []"

lemma fresh_new [simp]: "fresh_breaker (new_circuit_breaker name n d p w)"
  by (simp add: fresh_breaker_def new_circuit_breaker_def)

subsection \<open>Invariants\<close>

text \<open>A half-open breaker has its trial flag set; this survives resets.\<close>

definition trial_flagged :: "cb_system \<Rightarrow> bool" where
  "trial_flagged s \<longleftrightarrow>
     (cb_st (sys_cb s) = StateHalfOpen \<longrightarrow> cb_in_trial (sys_cb s))"

lemma cb_step_flagged: "cb_step s l s' \<Longrightarrow> trial_flagged s \<Longrightarrow> trial_flagged s'"
proof (induction rule: cb_step.induct)
  case (rejected now s cb e i)
  then have "cb = fst (cb_admit now (sys_cb s))" by simp
  then show ?case by (simp add: trial_flagged_def cb_admit_trial)
next
  case (started now s cb i)
  then have "cb = fst (cb_admit now (sys_cb s))" by simp
  then show ?case by (simp add: trial_flagged_def cb_admit_trial)
qed (simp_all add: trial_flagged_def cb_complete_not_half_open)

text \<open>Without resets the flag says exactly that a trial call is running.\<close>

definition trial_runs :: "cb_system \<Rightarrow> bool" where
  "trial_runs s \<longleftrightarrow>
     (cb_in_trial (sys_cb s) \<longleftrightarrow> cb_st (sys_cb s) = StateHalfOpen) \<and>
     (cb_st (sys_cb s) = StateHalfOpen \<longrightarrow> (\<exists>c \<in> set (running s). snd c))"

lemma cb_step_trial_runs:
  "cb_step s l s' \<Longrightarrow> \<not> is_reset l \<Longrightarrow> trial_runs s \<Longrightarrow> trial_runs s'"
proof (induction rule: cb_step.induct)
  case (rejected now s cb e i)
  then have "cb = fst (cb_admit now (sys_cb s))" "snd (cb_admit now (sys_cb s)) = Some e"
    by simp_all
  with rejected show ?case
    by (auto simp: trial_runs_def cb_admit_trial cb_admit_st cb_admit_result
        split: cb_state.splits if_splits)
next
  case (started now s cb i)
  then have "cb = fst (cb_admit now (sys_cb s))" by simp
  with started show ?case
    by (auto simp: trial_runs_def cb_admit_trial cb_admit_st)
qed (auto simp: trial_runs_def cb_complete_not_half_open cb_complete_trial)

lemma cb_run_flagged: "cb_run s ls s' \<Longrightarrow> trial_flagged s \<Longrightarrow> trial_flagged s'"
  by (induction rule: cb_run.induct) (auto intro: cb_step_flagged)

lemma cb_run_trial_runs:
  "cb_run s ls s' \<Longrightarrow> \<forall>l \<in> set ls. \<not> is_reset l \<Longrightarrow> trial_runs s \<Longrightarrow> trial_runs s'"
  by (induction rule: cb_run.induct) (auto intro: cb_step_trial_runs)

lemma fresh_invariants:
  "fresh_breaker cb \<Longrightarrow> trial_flagged (cb_system_init cb) \<and> trial_runs (cb_system_init cb)"
  by (simp add: fresh_breaker_def trial_flagged_def trial_runs_def cb_system_init_def)

subsection \<open>The steps as a function\<close>

text \<open>A label determines the step, so a run can be computed.\<close>

fun cb_exec :: "cb_system \<Rightarrow> cb_label \<Rightarrow> cb_system option" where
  "cb_exec s (Call i now) =
     (case cb_admit now (sys_cb s) of
        (cb, Some e) \<Rightarrow> Some (s\<lparr>sys_cb := cb\<rparr>)
      | (cb, None) \<Rightarrow>
          if i \<in> fst ` set (running s) then None
          else Some (s\<lparr>sys_cb := cb, running := (i, cb_st cb = StateHalfOpen) # running s\<rparr>))"
| "cb_exec s (Return i now err) =
     (if i \<in> fst ` set (running s)
      then Some (s\<lparr>sys_cb := cb_complete now err (sys_cb s),
                   running := AList.delete i (running s)\<rparr>)
      else None)"
| "cb_exec s (Reset now) = Some (s\<lparr>sys_cb := cb_reset now (sys_cb s)\<rparr>)"
| "cb_exec s (Reconfig now n d) = Some (s\<lparr>sys_cb := cb_reset_config now n d (sys_cb s)\<rparr>)"

lemma cb_step_iff_exec: "cb_step s l s' \<longleftrightarrow> cb_exec s l = Some s'"
proof
  assume "cb_step s l s'"
  then show "cb_exec s l = Some s'" by (induction rule: cb_step.induct) auto
next
  assume "cb_exec s l = Some s'"
  then show "cb_step s l s'"
    by (cases "(s, l)" rule: cb_exec.cases)
      (auto split: prod.splits option.splits if_splits intro: cb_step.intros)
qed

fun cb_execs :: "cb_system \<Rightarrow> cb_label list \<Rightarrow> cb_system option" where
  "cb_execs s [] = Some s"
| "cb_execs s (l # ls) = (case cb_exec s l of None \<Rightarrow> None | Some s' \<Rightarrow> cb_execs s' ls)"

lemma cb_run_append:
  "cb_run s' ls' s'' \<Longrightarrow> cb_run s ls s' \<Longrightarrow> cb_run s (ls @ ls') s''"
  by (induction rule: cb_run.induct) (auto simp flip: append_assoc intro: cb_run.step)

lemma cb_run_step1: "cb_step s l s' \<Longrightarrow> cb_run s [l] s'"
  using cb_run.step [OF cb_run.none] by fastforce

lemma cb_run_execs: "cb_execs s ls = Some s' \<Longrightarrow> cb_run s ls s'"
proof (induction ls arbitrary: s)
  case Nil
  then show ?case by (simp add: cb_run.none)
next
  case (Cons l ls)
  then obtain s1 where s1: "cb_exec s l = Some s1" "cb_execs s1 ls = Some s'"
    by (auto split: option.splits)
  with Cons.IH have "cb_run s1 ls s'" by simp
  moreover have "cb_run s [l] s1" using s1 by (simp add: cb_run_step1 cb_step_iff_exec)
  ultimately show ?case using cb_run_append by fastforce
qed

subsection \<open>The telemetry log\<close>

fun log_chain :: "string \<Rightarrow> cb_event list \<Rightarrow> string \<Rightarrow> bool" where
  "log_chain a [] b \<longleftrightarrow> a = b"
| "log_chain a (e # es) b \<longleftrightarrow> ev_old e = a \<and> log_chain (ev_new e) es b"

lemma log_chain_snoc [simp]:
  "log_chain a (es @ [e]) b \<longleftrightarrow> log_chain a es (ev_old e) \<and> ev_new e = b"
  by (induction es arbitrary: a) auto

definition logged :: "circuit_breaker \<Rightarrow> bool" where
  "logged cb \<longleftrightarrow> cb_log_path cb \<noteq> '''' \<and> cb_log_writable cb \<and>
     log_chain ''Closed'' (cb_log cb) (state_to_string (cb_st cb))"

lemma logged_admit: "logged cb \<Longrightarrow> logged (fst (cb_admit t cb))"
  by (auto simp: logged_def cb_admit_def Let_def log_event_def)

lemma logged_complete: "logged cb \<Longrightarrow> logged (cb_complete t err cb)"
  by (auto simp: logged_def cb_complete_def Let_def log_event_def)

lemma logged_reset: "logged cb \<Longrightarrow> logged (cb_reset t cb)"
  by (auto simp: logged_def cb_reset_def log_event_def)

lemma logged_reset_config: "logged cb \<Longrightarrow> logged (cb_reset_config t n d cb)"
  by (auto simp: logged_def cb_reset_config_def log_event_def)

lemma cb_step_logged: "cb_step s l s' \<Longrightarrow> logged (sys_cb s) \<Longrightarrow> logged (sys_cb s')"
proof (induction rule: cb_step.induct)
  case (rejected now s cb e i)
  then show ?case using logged_admit [of "sys_cb s" now] by simp
next
  case (started now s cb i)
  then show ?case using logged_admit [of "sys_cb s" now] by simp
qed (simp_all add: logged_complete logged_reset logged_reset_config)

lemma cb_run_logged: "cb_run s ls s' \<Longrightarrow> logged (sys_cb s) \<Longrightarrow> logged (sys_cb s')"
  by (induction rule: cb_run.induct) (auto intro: cb_step_logged)

subsection \<open>A wedged breaker\<close>

text \<open>Half-open, marked as trying, and nobody is trying.\<close>

definition wedged :: "cb_system \<Rightarrow> bool" where
  "wedged s \<longleftrightarrow> cb_st (sys_cb s) = StateHalfOpen \<and> cb_in_trial (sys_cb s) \<and> running s = []"

lemma wedged_step: "cb_step s l s' \<Longrightarrow> \<not> is_reset l \<Longrightarrow> wedged s \<Longrightarrow> s' = s"
  by (induction rule: cb_step.induct) (auto simp: wedged_def)

section \<open>Properties\<close>

text \<open>
  C17: tripping.  Against a closed breaker with no recorded failure, calls that all fail and
  that start within one timeout of the first run the action exactly as often as the
  threshold says (once when the threshold is not positive) and no more: the breaker is open
  exactly when that many calls were made, and the later ones are refused without running.
\<close>

theorem failing_calls_trip:
  assumes "fresh_breaker cb" "0 < sint (cb_timeout cb)"
    and "\<forall>c \<in> set cs. failing_call start (sint (cb_timeout cb)) c"
  shows "snd (run_calls cs cb 0) = min (length cs) (trip_count cb) \<and>
         cb_st (fst (run_calls cs cb 0)) =
           (if trip_count cb \<le> length cs then StateOpen else StateClosed)"
  using run_calls_closed [of cb cs start 0] assms
  by (simp add: fresh_breaker_def int_trip_count)

definition demo_calls :: "call list" where
  "demo_calls = map (\<lambda>t. (t, t + 1, Some (SysErr ''disk''))) [10, 20, 30, 40, 50]"

lemma failing_calls_trip_witness:
  "snd (run_calls demo_calls (new_circuit_breaker ''Storage'' 3 5000000000 '''' True) 0) = 3"
proof -
  let ?cb = "new_circuit_breaker ''Storage'' 3 5000000000 '''' True"
  have "snd (run_calls demo_calls ?cb 0) = min (length demo_calls) (trip_count ?cb)"
    by (rule failing_calls_trip [where start = 10, THEN conjunct1])
      (simp_all add: demo_calls_def failing_call_def new_circuit_breaker_def fresh_breaker_def)
  then show ?thesis by (simp add: demo_calls_def trip_count_def new_circuit_breaker_def)
qed


definition trial_labels :: "cb_label list" where
  "trial_labels = [Call 1 0, Return 1 1 (Some (SysErr ''disk'')), Call 2 6000000000]"

definition trial_state :: cb_system where
  "trial_state = the (cb_execs (cb_system_init
     (new_circuit_breaker ''Network'' 1 5000000000 '''' True)) trial_labels)"


text \<open>
  C16: recovery.  As long as nobody resets the breaker, it is never stuck: in every reachable
  state in which no call is running, \<open>Execute\<close> called once the timeout since the last failure
  has passed runs its action and returns its error; success leaves the breaker closed with no
  failures, and failure of a call made while it was open opens it again at once.
\<close>

theorem breaker_recovers:
  fixes act :: "'s \<Rightarrow> go_error option \<times> 's"
  assumes "fresh_breaker cb" "cb_run (cb_system_init cb) ls s" "\<forall>l \<in> set ls. \<not> is_reset l"
    and "running s = []" "cb_st (sys_cb s) = StateOpen \<longrightarrow> timeout_elapsed t0 (sys_cb s)"
    and "cb_execute t0 t1 act (sys_cb s) x = (r, cb', x')"
  shows "act x = (r, x') \<and>
         (r = None \<longrightarrow> cb_st cb' = StateClosed \<and> cb_failures cb' = 0) \<and>
         (r \<noteq> None \<and> cb_st (sys_cb s) = StateOpen \<longrightarrow> cb_st cb' = StateOpen)"
proof -
  have "trial_runs s"
    using cb_run_trial_runs [OF assms(2,3)] fresh_invariants [OF assms(1)] by simp
  then have "cb_st (sys_cb s) \<noteq> StateHalfOpen" "\<not> cb_in_trial (sys_cb s)"
    using assms(4) by (auto simp: trial_runs_def)
  then have "cb_admits t0 (sys_cb s)"
    using assms(5) by (cases "cb_st (sys_cb s)") (simp_all add: cb_admits_def cb_admit_result)
  then have "act x = (r, x')" "cb' = cb_complete t1 r (fst (cb_admit t0 (sys_cb s)))"
    using assms(6) by (auto simp: cb_execute_admitted prod_eq_iff)
  with assms(5) show ?thesis
    by (cases r) (auto simp: cb_complete_success cb_complete_failure cb_admit_st)
qed

definition tripped_state :: cb_system where
  "tripped_state = the (cb_execs (cb_system_init
     (new_circuit_breaker ''Network'' 1 5000000000 '''' True)) (take 2 trial_labels))"

lemma breaker_recovers_witness:
  "cb_st (sys_cb tripped_state) = StateOpen \<and>
   cb_st (fst (snd (cb_execute 6000000000 6000000001 (\<lambda>n. (None, Suc n)) (sys_cb tripped_state) 0)))
     = StateClosed"
proof -
  have run: "cb_execs (cb_system_init (new_circuit_breaker ''Network'' 1 5000000000 '''' True))
      (take 2 trial_labels) = Some tripped_state"
    by (simp add: tripped_state_def) code_simp
  obtain r cb' x' where ex: "cb_execute 6000000000 6000000001 (\<lambda>n. (None, Suc n))
      (sys_cb tripped_state) 0 = (r, cb', x')"
    by (metis prod_cases3)
  have "running tripped_state = []" "timeout_elapsed 6000000000 (sys_cb tripped_state)"
    "cb_st (sys_cb tripped_state) = StateOpen"
    by code_simp+
  with breaker_recovers [OF fresh_new cb_run_execs [OF run] _ _ _ ex] ex show ?thesis
    by (simp add: trial_labels_def)
qed

text \<open>
  C30: the log tells the story.  When the log file can be written, the lines a breaker appends
  over any run form a path: it starts at Closed, every line starts in the state where the one
  before ended, and the last line ends in the state the breaker is in.
\<close>

theorem log_is_a_path:
  assumes "fresh_breaker cb" "cb_log_path cb \<noteq> ''''" "cb_log_writable cb"
    and "cb_run (cb_system_init cb) ls s"
  shows "log_chain ''Closed'' (cb_log (sys_cb s)) (get_state (sys_cb s))"
proof -
  have "logged cb" using assms(1-3) by (simp add: logged_def fresh_breaker_def)
  then have "logged (sys_cb s)"
    using cb_run_logged [OF assms(4)] by (simp add: cb_system_init_def)
  then show ?thesis
    by (cases "cb_st (sys_cb s)") (simp_all add: logged_def get_state_def)
qed

definition logging_state :: cb_system where
  "logging_state = the (cb_execs (cb_system_init
     (new_circuit_breaker ''Network'' 1 5000000000 ''cb.log'' True)) trial_labels)"

lemma log_is_a_path_witness:
  "log_chain ''Closed'' (cb_log (sys_cb logging_state)) ''Half-Open'' \<and>
   length (cb_log (sys_cb logging_state)) = 2"
proof -
  have run: "cb_execs (cb_system_init (new_circuit_breaker ''Network'' 1 5000000000 ''cb.log'' True))
      trial_labels = Some logging_state"
    by (simp add: logging_state_def) code_simp
  have "get_state (sys_cb logging_state) = ''Half-Open''"
    "length (cb_log (sys_cb logging_state)) = 2" by code_simp+
  with log_is_a_path [OF fresh_new _ _ cb_run_execs [OF run]] show ?thesis
    by (simp add: new_circuit_breaker_def)
qed

text \<open>
  C35: a reset during a trial can wedge the breaker.  \<open>Reset\<close> and \<open>ResetConfig\<close> do not clear
  the trial flag, so once a reset has overtaken a trial the flag stays set; the next time the
  breaker becomes half-open no call is running and none is ever let through again: without
  another reset, no sequence of calls changes anything.
\<close>

theorem wedged_for_good:
  assumes "wedged s" "cb_run s ls s'" "\<forall>l \<in> set ls. \<not> is_reset l"
  shows "s' = s"
  using assms(2,1,3)
  by (induction rule: cb_run.induct) (auto dest: wedged_step)

definition wedging_labels :: "cb_label list" where
  "wedging_labels = trial_labels @
     [Reset 6000000001, Return 2 6000000002 None,
      Call 3 6000000003, Return 3 6000000004 (Some (SysErr ''disk'')),
      Call 4 12000000000]"

definition wedged_state :: cb_system where
  "wedged_state = the (cb_execs (cb_system_init
     (new_circuit_breaker ''Network'' 1 5000000000 '''' True)) wedging_labels)"

lemma wedged_for_good_witness:
  "cb_run (cb_system_init (new_circuit_breaker ''Network'' 1 5000000000 '''' True))
     wedging_labels wedged_state \<and>
   wedged wedged_state \<and>
   {s'. cb_run wedged_state [Call 5 99000000000] s'} \<subseteq> {wedged_state}"
proof -
  have "cb_execs (cb_system_init (new_circuit_breaker ''Network'' 1 5000000000 '''' True))
      wedging_labels = Some wedged_state"
    by (simp add: wedged_state_def) code_simp
  then have run: "cb_run (cb_system_init (new_circuit_breaker ''Network'' 1 5000000000 '''' True))
      wedging_labels wedged_state" by (rule cb_run_execs)
  moreover have w: "wedged wedged_state" by code_simp
  ultimately show ?thesis using wedged_for_good [OF w] by auto
qed

end
