(* ===== verification/Broker_Limits.thy ===== *)
theory Broker_Limits
  imports Durability
begin

text \<open>
  The bounds of the queue and the edges of the contract: what a push guarantees about
  \<open>maxQueueSize\<close> and what breaks it, giving a message back, what identifiers clients choose
  do to files, and the order a restart brings.
\<close>

lemma do_push_full:
  "queue_full b \<Longrightarrow> do_push m (b, w) = (Some (QueueFull (max_queue_size b)), b, w)"
  by (simp add: do_push_def push_check_def)

lemma push_none_cb: "cb b = None \<Longrightarrow> push t0 t1 m (b, w) = do_push m (b, w)"
  by (simp add: push_def)

text \<open>
  C10: the bound on the queue.  With a positive limit, a push that succeeds leaves at most
  that many messages queued, and a push on a full queue fails without touching queue, pending
  messages, disk or metrics, whether or not a breaker guards it.
\<close>

theorem push_bounded:
  assumes "push t0 t1 m (b, w) = (r, b', w')" "0 < max_queue_size b"
  shows "(r = None \<longrightarrow> int (length (messages b')) \<le> max_queue_size b) \<and>
    (queue_full b \<longrightarrow> r \<noteq> None \<and> messages b' = messages b \<and>
       pending_acks b' = pending_acks b \<and> w' = w)"
  using assms(1)
proof (cases rule: push_cases)
  case (refused c)
  then show ?thesis by auto
next
  case (ran b1)
  from ran(1) show ?thesis
  proof (cases rule: do_push_cases)
    case full
    with push_frame [OF assms(1)] show ?thesis by auto
  next
    case (unsaved e d)
    then show ?thesis by auto
  next
    case (pushed d)
    with push_frame [OF assms(1)] assms(2) show ?thesis by (auto simp: queue_full_def)
  qed
qed

definition tight_broker :: broker where
  "tight_broker = demo_broker\<lparr>max_queue_size := 1\<rparr>"

lemma push_bounded_witness:
  "\<exists>b' w'. push 1 2 (demo_message ''a'') (tight_broker, demo_world) = (None, b', w') \<and>
     length (messages b') \<le> 1"
proof -
  obtain r b' w' where run: "push 1 2 (demo_message ''a'') (tight_broker, demo_world) = (r, b', w')"
    by (metis prod_cases3)
  have "fst (push 1 2 (demo_message ''a'') (tight_broker, demo_world)) = None" by code_simp
  then have r: "r = None" using run by simp
  have "max_queue_size tight_broker = 1" by (simp add: tight_broker_def)
  with push_bounded [OF run] r run show ?thesis by auto
qed

text \<open>
  C36: concurrent pushes overshoot the bound.  \<open>doPush\<close> checks the length in one critical
  section and appends in another.  When producers all pass the check before any of them
  appends, every one of them appends: the queue holds its old length plus their number, above
  a limit it was just below.
\<close>

theorem racing_pushes_overshoot:
  assumes "max_queue_size b = int (length (messages b)) + 1" "2 \<le> length ms"
  shows "push_check b = None \<and>
    max_queue_size b < int (length (messages (fst (fold push_commit ms (b, w)))))"
proof -
  have "length (messages (fst (fold push_commit ms bw))) = length (messages (fst bw)) + length ms"
    for bw
  proof (induction ms arbitrary: bw)
    case (Cons m ms)
    then show ?case by (cases bw) simp
  qed simp
  from this [of "(b, w)"] assms show ?thesis by (simp add: push_check_def queue_full_def)
qed

lemma racing_pushes_overshoot_witness:
  "length (messages (fst (fold push_commit [demo_message ''a'', demo_message ''b''] (tight_broker, demo_world)))) > 1"
  using racing_pushes_overshoot [of tight_broker "[demo_message ''a'', demo_message ''b'']" demo_world]
  by (simp add: tight_broker_def demo_broker_def empty_broker_def)

text \<open>
  C26: giving a message back undoes the pop.  Popping a message whose identifier is not pending
  and negatively acknowledging it leaves the queue and the pending map as they were, whatever
  the limit.
\<close>

theorem pop_nack_roundtrip:
  assumes "messages b = m # rest" "map_of (pending_acks b) (msg_id m) = None"
  shows "\<exists>b1 w1 b2 w2. pop t (b, w) = (Inr m, b1, w1) \<and>
    negative_acknowledge (msg_id m) (b1, w1) = (None, b2, w2) \<and>
    messages b2 = messages b \<and> map_of (pending_acks b2) = map_of (pending_acks b) \<and>
    wdisk w2 = wdisk w"
  using assms
  by (auto simp: pop_def negative_acknowledge_def Let_def fun_eq_iff set_queue_size_def)

lemma pop_nack_roundtrip_witness:
  "\<exists>b1 w1 b2 w2. pop 5 (demo_broker\<lparr>messages := [demo_message ''a'']\<rparr>, demo_world) = (Inr (demo_message ''a''), b1, w1) \<and>
    negative_acknowledge ''a'' (b1, w1) = (None, b2, w2) \<and> messages b2 = [demo_message ''a'']"
  using pop_nack_roundtrip [of "demo_broker\<lparr>messages := [demo_message ''a'']\<rparr>" "demo_message ''a''" "[]" 5 demo_world]
  by (fastforce simp: demo_broker_def empty_broker_def)

text \<open>
  C25: the timeout sweep.  Whatever order Go walks the pending map in, a tick moves exactly
  the entries older than the timeout to the front of the queue, the last visited first, and
  leaves the others pending; the limit is not looked at.
\<close>

theorem timeout_sweep:
  assumes "distinct order" "set order = dom (map_of (pending_acks b))"
    "timeout_tick t order (b, w) = (b', w')"
  shows "messages b' = rev (map (pending_message b) (filter (is_expired t b) order)) @ messages b \<and>
    map_of (pending_acks b') =
      (\<lambda>i. if is_expired t b i then None else map_of (pending_acks b) i)"
proof -
  have "is_expired t b i \<Longrightarrow> i \<in> set order" for i
    using assms(2) by (auto simp: is_expired_def split: option.splits)
  then show ?thesis
    using assms(3) fold_requeue [OF assms(1), of t b] by (auto simp: timeout_tick_eq fun_eq_iff)
qed

definition sweep_broker :: broker where
  "sweep_broker = demo_broker\<lparr>pending_acks :=
     [(''a'', \<lparr>pm_message = demo_message ''a'', pm_pop_time = 0\<rparr>),
      (''b'', \<lparr>pm_message = demo_message ''b'', pm_pop_time = 800000000000\<rparr>)]\<rparr>"

lemma timeout_sweep_witness:
  "messages (fst (timeout_tick 900000000000 [''b'', ''a''] (sweep_broker, demo_world))) =
     [demo_message ''a'']"
proof -
  obtain b' w' where tick:
    "timeout_tick 900000000000 [''b'', ''a''] (sweep_broker, demo_world) = (b', w')" by fastforce
  have "rev (map (pending_message sweep_broker)
      (filter (is_expired 900000000000 sweep_broker) [''b'', ''a''])) @ messages sweep_broker =
      [demo_message ''a'']" by code_simp
  moreover have "set [''b'', ''a''] = dom (map_of (pending_acks sweep_broker))"
    by (auto simp: sweep_broker_def)
  ultimately show ?thesis using timeout_sweep [OF _ _ tick] tick by simp
qed



text \<open>
  C38: an identifier can name a file outside the store.  The identifier of a pushed message goes
  into the file name unchecked: with \<open>../../\<close> in front, the push writes (and an acknowledgement
  would remove) a file two levels above the message directory.
\<close>

theorem identifier_escapes_store:
  assumes "plain_id i"
  shows "message_file ''./data/messages'' (''../../'' @ i) = i @ ''.json'' \<and>
    parent_dir (message_file ''./data/messages'' (''../../'' @ i)) \<noteq> clean_path ''./data/messages''"
proof -
  have n: "plain_name (i @ ''.json'')" by (rule plain_name_id [OF assms])
  then have s: "slash \<notin> set (i @ ''.json'')" by (simp add: plain_name_def)
  have split: "split_slash (''./data/messages/../../'' @ i @ ''.json'') =
      [''.'', ''data'', ''messages'', ''..'', ''..'', i @ ''.json'']"
    using split_slash_plain [OF s] by (simp add: slash_def)
  have "clean_elems False [] (split_slash (''./data/messages/../../'' @ i @ ''.json'')) = [i @ ''.json'']"
    unfolding split using n by (simp add: plain_name_def)
  then have f: "message_file ''./data/messages'' (''../../'' @ i) = i @ ''.json''"
    by (simp add: message_file_def join_path_def clean_path_def is_rooted_def slash_def render_path_def)
  have "parent_dir (child ''.'' (i @ ''.json'')) = ''.''" using s by (rule parent_dir_child) simp
  then have "parent_dir (i @ ''.json'') = ''.''" by (simp add: child_def)
  moreover have "clean_path ''./data/messages'' = ''data/messages''" by code_simp
  ultimately show ?thesis using f by simp
qed

lemma identifier_escapes_store_witness:
  "message_file ''./data/messages'' ''../../go'' = ''go.json''"
  using identifier_escapes_store [of "''go''"] by (simp add: plain_id_def slash_def)

section \<open>The order a restart brings\<close>

text \<open>Every file a broker wrote is named after the identifier of its message.\<close>

definition named_after :: "string \<Rightarrow> disk \<Rightarrow> bool" where
  "named_after dir d \<longleftrightarrow>
     (\<forall>n data m. file_at d (join_path dir n) = Some data \<longrightarrow> unmarshal_message data = Some m \<longrightarrow>
        msg_id m @ ''.json'' = n)"

lemma recover_files_sorted:
  "sorted (map fst es) \<Longrightarrow> named_after dir d \<Longrightarrow>
   sorted (map (\<lambda>m. msg_id m @ ''.json'') (recover_files dir d es))"
proof (induction es)
  case (Cons e es)
  obtain name isdir where e: "e = (name, isdir)" by (cases e)
  have tail: "sorted (map (\<lambda>m. msg_id m @ ''.json'') (recover_files dir d es))"
    using Cons by simp
  have above: "name \<le> msg_id m @ ''.json''" if "m \<in> set (recover_files dir d es)" for m
  proof -
    from that obtain n k data where nk: "(n, k) \<in> set es"
      "os_read_file (join_path dir n) d = Inr data" "unmarshal_message data = Some m"
      by (auto simp: recover_files_set)
    then have "file_at d (join_path dir n) = Some data"
      by (auto simp: os_read_file_def split: option.splits if_splits)
    then have "msg_id m @ ''.json'' = n" using Cons.prems(2) nk unfolding named_after_def by blast
    with nk(1) Cons.prems(1) show ?thesis by (auto simp: e)
  qed
  have head: "msg_id m @ ''.json'' = name"
    if "os_read_file (join_path dir name) d = Inr data" "unmarshal_message data = Some m" for data m
    using that Cons.prems(2)
    by (auto simp: named_after_def os_read_file_def split: option.splits if_splits)
  show ?case
    using tail above head by (auto simp: e split: sum.split option.split)
qed simp



text \<open>
  First in, first out does not survive a restart.  Two messages pushed in the order
  b, a are popped in that order, but after a restart on the same disk they come a, b.
\<close>

lemma restart_reorders:
  "\<exists>rs b' w'. run_ops [OpPush 1 2 (demo_message ''b''), OpPush 3 4 (demo_message ''a'')]
      (demo_broker, demo_world) = (rs, b', w') \<and>
    map msg_id (messages b') = [''b'', ''a''] \<and>
    map msg_id (messages (fst (new_broker (storage_path b') (dead_letter_path b') None w'))) = [''a'', ''b'']"
proof -
  let ?run = "run_ops [OpPush 1 2 (demo_message ''b''), OpPush 3 4 (demo_message ''a'')]
      (demo_broker, demo_world)"
  obtain rs b' w' where run: "?run = (rs, b', w')" by (metis prod_cases3)
  have "map msg_id (messages (fst (snd ?run))) = [''b'', ''a'']" by code_simp
  moreover have "map msg_id (messages (fst (new_broker (storage_path (fst (snd ?run)))
      (dead_letter_path (fst (snd ?run))) None (snd (snd ?run))))) = [''a'', ''b'']" by code_simp
  ultimately show ?thesis using run by auto
qed

end
