(* ===== verification/Backpressure.thy ===== *)
theory Backpressure
  imports Breaker_Calls Broker_Limits
begin

text \<open>
  The limit of the queue and the storage breaker of \<open>pkg/broker/broker.go\<close> together: \<open>Push\<close>
  runs \<open>doPush\<close> behind the breaker, and a full queue is an error of \<open>doPush\<close>.
\<close>

section \<open>Pushing to a full queue\<close>

fun pushes :: "(time \<times> time \<times> message) list \<Rightarrow> bw \<Rightarrow> bw" where
  "pushes [] bw = bw"
| "pushes ((t0, t1, m) # ps) bw = pushes ps (snd (push t0 t1 m bw))"

text \<open>The calls these pushes are for the breaker, with the error of a full queue of size \<open>n\<close>.\<close>

definition full_calls :: "int \<Rightarrow> (time \<times> time \<times> message) list \<Rightarrow> call list" where
  "full_calls n ps = map (\<lambda>(t0, t1, m). (t0, t1, Some (QueueFull n))) ps"

lemma queue_full_cb [simp]: "queue_full (b\<lparr>cb := c\<rparr>) = queue_full b"
  by (simp add: queue_full_def)

lemma push_full:
  assumes "cb b = Some c" "queue_full b"
  shows "snd (push t0 t1 m (b, w)) =
    (b\<lparr>cb := Some (fst (run_calls [(t0, t1, Some (QueueFull (max_queue_size b)))] c k))\<rparr>, w)"
  using assms
  by (cases "cb_admit t0 c")
    (auto simp: push_def cb_execute_def do_push_full split: option.splits)

lemma run_calls_Cons:
  "fst (run_calls (x # cs) c k) = fst (run_calls cs (fst (run_calls [x] c k)) (snd (run_calls [x] c k)))"
  by (cases x) (simp split: prod.split)

lemma pushes_full:
  assumes "cb b = Some c" "queue_full b"
  shows "pushes ps (b, w) = (b\<lparr>cb := Some (fst (run_calls (full_calls (max_queue_size b) ps) c k))\<rparr>, w)"
  using assms
proof (induction ps arbitrary: b c k)
  case Nil
  then show ?case by (simp add: full_calls_def)
next
  case (Cons p ps)
  obtain t0 t1 m where p: "p = (t0, t1, m)" by (metis prod_cases3)
  let ?x = "(t0, t1, Some (QueueFull (max_queue_size b)))"
  let ?c = "fst (run_calls [?x] c k)"
  let ?b = "b\<lparr>cb := Some ?c\<rparr>"
  have "pushes (p # ps) (b, w) = pushes ps (?b, w)"
    using push_full [OF Cons.prems, of t0 t1 m w k] by (simp add: p)
  also have "\<dots> = (?b\<lparr>cb := Some (fst (run_calls (full_calls (max_queue_size ?b) ps) ?c
      (snd (run_calls [?x] c k))))\<rparr>, w)"
    by (rule Cons.IH) (use Cons.prems in simp_all)
  also have "\<dots> = (b\<lparr>cb := Some (fst (run_calls (full_calls (max_queue_size b) (p # ps)) c k))\<rparr>, w)"
    using run_calls_Cons [of ?x "full_calls (max_queue_size b) ps" c k] by (simp add: full_calls_def p)
  finally show ?case .
qed

section \<open>Property\<close>

text \<open>
  C32: a full queue opens the storage breaker.  Against a new breaker and a full queue, pushes
  within one timeout change nothing but the breaker, whatever the disk would do; the breaker
  counts each as a failure of the storage and is open exactly when there were as many as the
  threshold (one when it is not positive).
\<close>

theorem full_queue_trips_breaker:
  assumes "cb b = Some c" "fresh_breaker c" "0 < sint (cb_timeout c)" "queue_full b"
    "\<forall>(t0, t1, m) \<in> set ps. start \<le> t0 \<and> t0 < start + sint (cb_timeout c) \<and> start \<le> t1"
  shows "\<exists>c'. pushes ps (b, w) = (b\<lparr>cb := Some c'\<rparr>, w) \<and>
    cb_st c' = (if trip_count c \<le> length ps then StateOpen else StateClosed)"
proof -
  let ?cs = "full_calls (max_queue_size b) ps"
  have "\<forall>x \<in> set ?cs. failing_call start (sint (cb_timeout c)) x"
    using assms(5) by (auto simp: full_calls_def failing_call_def)
  then have "cb_st (fst (run_calls ?cs c 0)) = (if trip_count c \<le> length ?cs then StateOpen else StateClosed)"
    using run_calls_closed [of c ?cs start 0] assms(2,3) by (simp add: fresh_breaker_def int_trip_count)
  moreover have "length ?cs = length ps" by (simp add: full_calls_def)
  ultimately show ?thesis using pushes_full [OF assms(1,4), of ps w 0] by auto
qed

definition full_broker :: broker where
  "full_broker = demo_broker\<lparr>messages := [demo_message ''a''], max_queue_size := 1,
     cb := Some (new_circuit_breaker ''Storage'' 3 5000000000 '''' True)\<rparr>"

lemma full_queue_trips_breaker_witness:
  "\<exists>c'. pushes [(10, 11, demo_message ''b''), (20, 21, demo_message ''c''), (30, 31, demo_message ''d'')]
      (full_broker, demo_world) = (full_broker\<lparr>cb := Some c'\<rparr>, demo_world) \<and> cb_st c' = StateOpen"
  using full_queue_trips_breaker [of full_broker "new_circuit_breaker ''Storage'' 3 5000000000 '''' True"
      "[(10, 11, demo_message ''b''), (20, 21, demo_message ''c''), (30, 31, demo_message ''d'')]" 10 demo_world]
  by (simp add: full_broker_def queue_full_def trip_count_def new_circuit_breaker_def fresh_breaker_def)

end
