(* ===== verification/Spec2Isabelle.thy ===== *)
theory Spec2Isabelle
  imports Process_Facts Backpressure
begin

text \<open>
  A verification library for the message broker: a process that takes messages over HTTP and
  gRPC, keeps each in a file and in an in-memory queue, leases them to consumers that
  acknowledge them, pushes them to HTTP and gRPC targets with retries and a dead-letter
  directory, and streams statistics to websocket clients.  Two circuit breakers guard the disk
  and the network.

  \<^bold>\<open>The program and its model.\<close>  Each Go struct is a record with the fields of the struct, each
  method a definition that takes the record and returns its result with the record updated.
  Errors are values (\<open>go_error\<close>, one constructor for each error the program builds).  A method
  that releases its lock in the middle is composed of one definition for each critical section.
  Clock readings, the iteration order of Go maps, the outcome of disk and network operations
  and the libraries (SQL driver, rate limiter, YAML decoder) are arguments, so a theorem holds
  for all of them.

    \<^item> \<open>Go_Prelude\<close>: 64-bit integers, instants and durations, errors, association lists for
      Go maps.  \<open>Channels\<close>: buffered channels with \<open>select ... default\<close>; the locale
      \<open>bounded_fifo\<close> states what senders and receivers rely on.
    \<^item> \<open>Circuit_Breaker\<close> (\<open>pkg/circuitbreaker/cb.go\<close>): the breaker, \<open>Execute\<close> as \<open>cb_admit\<close>, the
      action, \<open>cb_complete\<close>.  \<open>Breaker_Calls\<close>: sequences of calls, and calls of several
      goroutines interleaved with resets as an inductive step relation.
    \<^item> \<open>Json\<close>, \<open>Models\<close> (\<open>pkg/models/models.go\<close>): JSON text, its printer and parser, decoded
      values of type \<open>any\<close>, the message and its text.
    \<^item> \<open>Disk\<close>: lexical paths and a file system whose failures are decided by two fields no
      operation changes.  \<open>Message_Store\<close>: the locale of the store the broker uses, and the disk
      as its interpretation.  \<open>Telemetry\<close> (\<open>pkg/telemetry/telemetry.go\<close>): the metrics.
    \<^item> \<open>Broker\<close> (\<open>pkg/broker/broker.go\<close>): one definition for each method and for a tick of the
      timeout checker; \<open>Broker_Facts\<close>: what each does on each branch, and calls as data.
      \<open>Lease_Queue\<close>: the abstract queue with leases and the refinement.  \<open>Durability\<close>: the
      invariant between memory and disk, recovery.  \<open>Broker_Limits\<close>, \<open>Backpressure\<close>: bounds, the
      order after a restart, what identifiers and a full queue can do.
    \<^item> \<open>Retry_Heap\<close> (\<open>pkg/broker/heap.go\<close> with the sift loops of \<open>container/heap\<close>): the locale
      \<open>heap_order\<close> and its interpretation for messages.
    \<^item> \<open>Config\<close> (\<open>config/config.go\<close>), \<open>Target_Storage\<close> (\<open>pkg/storage/sqlite.go\<close>) over a driver whose
      documented behaviour is the locale \<open>target_table\<close>, interpreted by a table in memory.
    \<^item> \<open>Delivery\<close>, \<open>Dispatcher\<close>, \<open>Dispatcher_Facts\<close>, \<open>Target_Registry\<close>, \<open>Dispatch_Runs\<close>
      (\<open>pkg/broker/dispatcher.go\<close>): headers and requests; the methods; what one message meets;
      the targets and their storage; the event loop, the turns of the retry loop, the workers,
      the background saves and the clients as labelled steps of one system.
    \<^item> \<open>Grpc_Server\<close> (\<open>pkg/server/grpc.go\<close>), \<open>Http_Server\<close>, \<open>Streaming\<close>, \<open>Net_Addr\<close>
      (\<open>pkg/server/http.go\<close> with what it uses of \<open>net\<close> and \<open>net/url\<close>): the calls, the routes and
      handlers, the debounced stream; \<open>Gatekeeper\<close>, \<open>Http_Facts\<close>: what registrations and failed
      requests can do.
    \<^item> \<open>Program\<close> (\<open>main.go\<close>): the start with its fatal errors, and the process as a step
      relation over everything above; \<open>Well_Formed\<close>, \<open>Process_Facts\<close>: its invariants.

  \<^bold>\<open>How the parts interact.\<close>  A push runs behind the storage breaker, writes the file first, then
  appends, signals the state listeners (the stream) and offers the message to the message
  listeners (the dispatcher's event loop).  The event loop hands messages to workers over a
  channel of 100 places; a worker tries the targets behind the network breaker, acknowledges
  on acceptance, and otherwise updates the message and puts it into the retry heap, whose timer
  wakes the event loop.  The HTTP server calls broker and dispatcher; a registration changes the
  dispatcher's map at once and the database in a goroutine.

  \<^bold>\<open>What is shown.\<close>  The broker refines a queue with leases for every disk and breaker
  (\<open>broker_refines\<close>); with the client rules stated there, what is held is on disk and is queued
  again after a crash (\<open>crash_recovers\<close>); nothing is lost or delivered after its
  acknowledgement; the limit, the order and the timeouts of the queue.  The breaker trips, admits
  one trial and recovers.  Deliveries are acknowledged only on acceptance, retried with
  exponential backoff the configured number of times, and the retry timer is set whenever a
  message waits.  Every state the process can reach is well-formed, failed requests change
  nothing, registrations respect the allow-list, and a changed queue reaches the stream.  The
  round trips: messages through JSON and files, HTTP and gRPC, targets through the database.
  Some theorems state what the code does against its intent: pushes that race past the limit,
  reused or path-like identifiers, a breaker wedged by a reset, a breaker opened by a full
  queue, messages the event loop drops, a retry loop that spins, background saves out of order,
  a forged identifier header.

  \<^bold>\<open>Bounds and choices.\<close>  Integers the program computes with are 64-bit words; counts it only
  compares are integers.  \<open>int64(math.Pow(2, n))\<close> beyond \<open>n = 62\<close> is the smallest integer, as on
  amd64.  The JSON parser has fuel: twice the length of its input plus one, which
  \<open>parse_json_print\<close> shows to be enough for every printed value.  Numbers in decoded \<open>any\<close>
  values are their literals.  Strings are bytes.  \<open>ParseIP\<close> and \<open>url.Parse\<close> are written out for
  what \<open>Hostname\<close> needs.  Of the decoder's error texts only "too large" is told from the others.

  \<^bold>\<open>Not modelled.\<close>  The generated protocol code, the browser dashboard and the tests; TCP, TLS,
  websocket frames and the transport of gRPC; the Prometheus and pprof handlers (routed, not
  answered); \<open>Close\<close> of the database; console output.  \<open>handleTestConfigGatekeeper\<close> is modelled
  though no route reaches it.  The data race between handlers and \<open>Dispatcher.Reset\<close>, which
  replaces a map without a lock, is outside a model in which each critical section is atomic.
\<close>

end
